theory Spec2Isabelle
  imports Main
begin

section \<open>Machine integers\<close>

text \<open>
  Go's \<open>int\<close> is a 64-bit two's complement integer on the platforms the pager runs on.
  Values are kept as \<open>int\<close>; every addition, subtraction and negation of the source is
  wrapped by \<open>i64\<close>, which reduces the mathematical result into the range
  \<open>- 2^63 .. 2^63 - 1\<close> the way the machine does.
\<close>

definition i64 :: "int \<Rightarrow> int" where
  "i64 x = (x + 9223372036854775808) mod 18446744073709551616 - 9223372036854775808"

definition is_i64 :: "int \<Rightarrow> bool" where
  "is_i64 x = (- 9223372036854775808 \<le> x \<and> x < 9223372036854775808)"

section \<open>Data model\<close>

text \<open>\<open>Context\<close> is \<open>map[string]string\<close>: annotation class to value.\<close>

type_synonym Context = "string \<rightharpoonup> string"

text \<open>
  An annotation as the pager sees it: the two methods \<open>Class()\<close> and \<open>Val()\<close> that
  \<open>HandleEvent\<close> calls.
\<close>

record Annotation =
  Class :: string
  Val :: string

text \<open>Go \<open>error\<close> values, and the ways a call can end other than by returning.\<close>

datatype error = Error string

datatype panic = Panic error | NilPointerDereference | NilMapAssignment

text \<open>
  \<open>exec.Cmd\<close>: the argument vector, whose first element is the program name as it was
  given, and the process handle, which is \<open>nil\<close> until \<open>Start\<close> has succeeded. The
  field \<open>Path\<close>, which \<open>exec.Command\<close> fills with what \<open>LookPath\<close> finds for a
  name without a path separator, is read by nothing below and is left out.
\<close>

record execCmd =
  Args :: "string list"
  Process :: "nat option"

text \<open>\<open>io.MultiReader(stdout, stderr)\<close> over two pipes, each named by a number.\<close>

datatype reader = MultiReader nat nat

text \<open>The struct \<open>shellCommand\<close>: the wrapped \<open>exec.Cmd\<close> and the embedded reader.\<close>

record shellCommand =
  exec_cmd :: execCmd
  Reader :: "reader option"

text \<open>
  Modelled from the spec: the Buffer, an external collaborator of the pager whose code is
  not part of the sources. It consumes the stream of one process wrapper, reports a line
  count and the annotations of a line in a fixed order, and can be closed. The pager only
  reads it. The field \<open>annotators\<close> lists the annotators for which a goroutine running
  \<open>AnnotateWith\<close> has been started on this buffer, in the order of the \<open>go\<close>
  statements; when each of them runs, and what it then does to the buffer, is up to the
  scheduler and the annotator and is not part of the model.
\<close>

record 'a Buffer =
  source :: shellCommand
  numLines :: nat
  annotationsForLine :: "int \<Rightarrow> Annotation list"
  annotators :: "'a list"
  closed :: bool

text \<open>
  Modelled from the spec: \<open>Buffer.NumLines()\<close>, the total line count, a Go \<open>int\<close> that
  is never negative.
\<close>

definition NumLines :: "'a Buffer \<Rightarrow> int" where
  "NumLines b = int (numLines b)"

text \<open>
  Modelled from the spec: \<open>Buffer.AnnotationsForLine(y)\<close>, the annotations of a line in
  the order the buffer reports them. Nothing is assumed about what it gives for which line.
\<close>

definition AnnotationsForLine :: "'a Buffer \<Rightarrow> int \<Rightarrow> Annotation list" where
  "AnnotationsForLine b y = annotationsForLine b y"

text \<open>
  Modelled from the spec: \<open>NewBuffer(command)\<close>, a buffer over the stream of the given
  process wrapper, open, with no line read and no annotator goroutine started yet.
\<close>

definition NewBuffer :: "shellCommand \<Rightarrow> 'a Buffer" where
  "NewBuffer sc =
     \<lparr>source = sc, numLines = 0, annotationsForLine = (\<lambda>y. []), annotators = [], closed = False\<rparr>"

text \<open>
  Modelled from the spec: the statement \<open>go p.buffer.AnnotateWith(a)\<close>. It starts a
  goroutine and returns at once; the model records that the goroutine was started.
\<close>

definition go_AnnotateWith :: "'a \<Rightarrow> 'a Buffer \<Rightarrow> 'a Buffer" where
  "go_AnnotateWith a b = b\<lparr>annotators := annotators b @ [a]\<rparr>"

text \<open>Modelled from the spec: \<open>Buffer.Close()\<close> marks the buffer as closed.\<close>

definition Buffer_Close :: "'a Buffer \<Rightarrow> 'a Buffer" where
  "Buffer_Close b = b\<lparr>closed := True\<rparr>"

text \<open>
  A mode, as far as \<open>RunCommand\<close> uses it: the annotators it creates for a context.
\<close>

record 'a Mode =
  InitAnnotators :: "Context \<Rightarrow> 'a list"

text \<open>A box of the screen with its four getters.\<close>

record Box =
  Left :: int
  Top :: int
  Width :: int
  Height :: int

text \<open>
  The struct \<open>cmdPager\<close>. \<open>'k\<close> is the type \<open>keyEvent\<close>, \<open>'f\<close> the plain handlers
  (\<open>func()\<close>), \<open>'g\<close> the annotation handlers (\<open>func(Context)\<close>) and \<open>'a\<close> the
  annotators. Handlers are opaque values: the pager stores them and calls them, nothing else.
  The channel \<open>stop\<close> is never used by the methods below and is left out. The
  constructor runs \<open>RunCommand\<close> before it returns the pager, so \<open>command\<close> and
  \<open>buffer\<close> are never \<open>nil\<close> in a pager that a caller holds.
\<close>

record ('k, 'f, 'g, 'a) cmdPager =
  modes :: "'a Mode list"
  cmd :: string
  ctx :: Context
  command :: shellCommand
  buffer :: "'a Buffer"
  scrollOffsetY :: int
  cursorY :: int
  eventListeners :: "'k \<rightharpoonup> 'f"
  annotationEventListeners :: "'k \<rightharpoonup> (string \<rightharpoonup> 'g)"
  box :: Box
  headerBox :: Box
  contentBox :: Box

section \<open>Cursor and scroll\<close>

text \<open>
  \<open>MoveCursorToY\<close> and \<open>ScrollToY\<close> call each other. The first argument bounds the
  depth of that recursion: a call that would need more nested calls than it allows gives
  \<open>None\<close>. A call that gives \<open>None\<close> for every bound never returns.
\<close>

fun MoveCursorToY :: "nat \<Rightarrow> int \<Rightarrow> ('k, 'f, 'g, 'a) cmdPager \<Rightarrow> ('k, 'f, 'g, 'a) cmdPager option"
  and ScrollToY :: "nat \<Rightarrow> int \<Rightarrow> ('k, 'f, 'g, 'a) cmdPager \<Rightarrow> ('k, 'f, 'g, 'a) cmdPager option"
where
  "MoveCursorToY 0 y p = None"
| "MoveCursorToY (Suc fuel) y p =
     (let p1 = (if y < 0 then p\<lparr>cursorY := 0\<rparr>
                else if y \<ge> NumLines (buffer p)
                then p\<lparr>cursorY := i64 (NumLines (buffer p) - 1)\<rparr>
                else p\<lparr>cursorY := y\<rparr>)
      in if cursorY p1 < scrollOffsetY p1 then ScrollToY fuel (cursorY p1) p1
         else if cursorY p1 > i64 (i64 (scrollOffsetY p1 + Height (contentBox p1)) - 1)
         then ScrollToY fuel (i64 (cursorY p1 - i64 (Height (contentBox p1) - 1))) p1
         else Some p1)"
| "ScrollToY 0 y p = None"
| "ScrollToY (Suc fuel) y p =
     (let p1 = (if y < 0 then p\<lparr>scrollOffsetY := 0\<rparr>
                else if y \<ge> i64 (NumLines (buffer p) - Height (contentBox p))
                then (if NumLines (buffer p) > Height (contentBox p)
                      then p\<lparr>scrollOffsetY := i64 (NumLines (buffer p) - Height (contentBox p))\<rparr>
                      else p\<lparr>scrollOffsetY := 0\<rparr>)
                else p\<lparr>scrollOffsetY := y\<rparr>)
      in if cursorY p1 < scrollOffsetY p1 then MoveCursorToY fuel (scrollOffsetY p1) p1
         else if cursorY p1 > i64 (i64 (scrollOffsetY p1 + Height (contentBox p1)) - 1)
         then MoveCursorToY fuel (i64 (i64 (scrollOffsetY p1 + Height (contentBox p1)) - 1)) p1
         else Some p1)"

definition MoveCursorY :: "nat \<Rightarrow> int \<Rightarrow> ('k, 'f, 'g, 'a) cmdPager \<Rightarrow> ('k, 'f, 'g, 'a) cmdPager option" where
  "MoveCursorY fuel delta p = MoveCursorToY fuel (i64 (cursorY p + delta)) p"

definition ScrollY :: "nat \<Rightarrow> int \<Rightarrow> ('k, 'f, 'g, 'a) cmdPager \<Rightarrow> ('k, 'f, 'g, 'a) cmdPager option" where
  "ScrollY fuel delta p = ScrollToY fuel (i64 (scrollOffsetY p + delta)) p"

definition CursorUp :: "nat \<Rightarrow> ('k, 'f, 'g, 'a) cmdPager \<Rightarrow> ('k, 'f, 'g, 'a) cmdPager option" where
  "CursorUp fuel p = MoveCursorY fuel (- 1) p"

definition CursorDown :: "nat \<Rightarrow> ('k, 'f, 'g, 'a) cmdPager \<Rightarrow> ('k, 'f, 'g, 'a) cmdPager option" where
  "CursorDown fuel p = MoveCursorY fuel 1 p"

definition CursorFirstLine :: "nat \<Rightarrow> ('k, 'f, 'g, 'a) cmdPager \<Rightarrow> ('k, 'f, 'g, 'a) cmdPager option" where
  "CursorFirstLine fuel p = MoveCursorToY fuel 0 p"

definition CursorLastLine :: "nat \<Rightarrow> ('k, 'f, 'g, 'a) cmdPager \<Rightarrow> ('k, 'f, 'g, 'a) cmdPager option" where
  "CursorLastLine fuel p = MoveCursorToY fuel (NumLines (buffer p)) p"

definition ScrollUp :: "nat \<Rightarrow> ('k, 'f, 'g, 'a) cmdPager \<Rightarrow> ('k, 'f, 'g, 'a) cmdPager option" where
  "ScrollUp fuel p = ScrollY fuel (- 1) p"

definition ScrollDown :: "nat \<Rightarrow> ('k, 'f, 'g, 'a) cmdPager \<Rightarrow> ('k, 'f, 'g, 'a) cmdPager option" where
  "ScrollDown fuel p = ScrollY fuel 1 p"

definition PageUp :: "nat \<Rightarrow> ('k, 'f, 'g, 'a) cmdPager \<Rightarrow> ('k, 'f, 'g, 'a) cmdPager option" where
  "PageUp fuel p = ScrollY fuel (i64 (- Height (contentBox p))) p"

definition PageDown :: "nat \<Rightarrow> ('k, 'f, 'g, 'a) cmdPager \<Rightarrow> ('k, 'f, 'g, 'a) cmdPager option" where
  "PageDown fuel p = ScrollY fuel (Height (contentBox p)) p"

section \<open>Listener registration and event dispatch\<close>

text \<open>
  \<open>KeyEventFromString\<close>, the key parser, is not part of the sources: the two registration
  methods take it as their first argument.
\<close>

definition AddEventListener ::
  "(string \<Rightarrow> 'k) \<Rightarrow> string \<Rightarrow> 'f \<Rightarrow> ('k, 'f, 'g, 'a) cmdPager \<Rightarrow> ('k, 'f, 'g, 'a) cmdPager" where
  "AddEventListener KeyEventFromString keyStr handler p =
     p\<lparr>eventListeners := (eventListeners p)(KeyEventFromString keyStr \<mapsto> handler)\<rparr>"

text \<open>
  The loop of \<open>AddAnnotationEventListener\<close> over the annotation types. Storing into the
  inner map of a key that has none is an assignment to an entry of a nil map, which panics.
\<close>

fun bindAnnotationTypes ::
  "'k \<Rightarrow> string list \<Rightarrow> 'g \<Rightarrow> ('k, 'f, 'g, 'a) cmdPager \<Rightarrow> panic + ('k, 'f, 'g, 'a) cmdPager" where
  "bindAnnotationTypes ke [] handler p = Inr p"
| "bindAnnotationTypes ke (annotationType # rest) handler p =
     (case annotationEventListeners p ke of
        None \<Rightarrow> Inl NilMapAssignment
      | Some m \<Rightarrow>
          bindAnnotationTypes ke rest handler
            (p\<lparr>annotationEventListeners :=
                 (annotationEventListeners p)(ke \<mapsto> m(annotationType \<mapsto> handler))\<rparr>))"

definition AddAnnotationEventListener ::
  "(string \<Rightarrow> 'k) \<Rightarrow> string \<Rightarrow> string list \<Rightarrow> 'g \<Rightarrow> ('k, 'f, 'g, 'a) cmdPager
     \<Rightarrow> panic + ('k, 'f, 'g, 'a) cmdPager" where
  "AddAnnotationEventListener KeyEventFromString keyStr annotationTypes handler p =
     (let ke = KeyEventFromString keyStr;
          p1 = (case annotationEventListeners p ke of
                  None \<Rightarrow>
                    p\<lparr>annotationEventListeners := (annotationEventListeners p)(ke \<mapsto> Map.empty)\<rparr>
                | Some m \<Rightarrow> p)
      in bindAnnotationTypes (KeyEventFromString keyStr) annotationTypes handler p1)"

text \<open>
  What \<open>HandleEvent\<close> does to the outside is to call handlers. A call of a plain handler
  and a call of an annotation handler with its argument:
\<close>

datatype ('f, 'g) call = CallPlain 'f | CallAnnotated 'g Context

text \<open>The first loop of \<open>HandleEvent\<close>: the context of the line.\<close>

definition lineContext :: "Annotation list \<Rightarrow> Context" where
  "lineContext annotations = foldl (\<lambda>c a. c(Class a \<mapsto> Val a)) Map.empty annotations"

text \<open>The second loop: the handler of the first annotation whose class has one.\<close>

fun firstHandler :: "(string \<rightharpoonup> 'g) \<Rightarrow> Annotation list \<Rightarrow> 'g option" where
  "firstHandler handlers [] = None"
| "firstHandler handlers (a # rest) =
     (case handlers (Class a) of
        Some handler \<Rightarrow> Some handler
      | None \<Rightarrow> firstHandler handlers rest)"

text \<open>
  \<open>HandleEvent\<close> gives the calls it made, in order, and its return value. The buffer's
  lock is taken for the whole call and plays no part in a sequential run.
\<close>

definition HandleEvent :: "'k \<Rightarrow> ('k, 'f, 'g, 'a) cmdPager \<Rightarrow> ('f, 'g) call list \<times> bool" where
  "HandleEvent ke p =
     (let annotations = AnnotationsForLine (buffer p) (cursorY p);
          c = lineContext annotations
      in case (case annotationEventListeners p ke of
                 Some handlers \<Rightarrow>
                   if length annotations > 0 then firstHandler handlers annotations else None
               | None \<Rightarrow> None) of
           Some handler \<Rightarrow> ([CallAnnotated handler c], True)
         | None \<Rightarrow>
             (case eventListeners p ke of
                Some handler \<Rightarrow> ([CallPlain handler], True)
              | None \<Rightarrow> ([], False)))"

section \<open>The process wrapper\<close>

text \<open>
  What the operating system answers to one \<open>NewShellCommand\<close>: the value of the
  environment variable \<open>SHELL\<close>, and the results of \<open>StdoutPipe\<close>, \<open>StderrPipe\<close> and
  \<open>Start\<close> (an error, or the pipe or the process id).
\<close>

record spawn_env =
  SHELL :: string
  StdoutPipe :: "error + nat"
  StderrPipe :: "error + nat"
  Start :: "error + nat"

text \<open>
  \<open>exec.Command(name, arg...)\<close>: the argument vector is the name followed by the
  arguments, and there is no process yet. The fields \<open>SysProcAttr\<close>, \<open>Stdout\<close> and
  \<open>Stderr\<close> that the source sets are read by nothing below and are left out.
\<close>

definition exec_Command :: "string \<Rightarrow> string list \<Rightarrow> execCmd" where
  "exec_Command name arg = \<lparr>Args = name # arg, Process = None\<rparr>"

definition NewShellCommand :: "spawn_env \<Rightarrow> string \<Rightarrow> shellCommand \<times> error option" where
  "NewShellCommand env c =
     (let sc = \<lparr>exec_cmd = exec_Command (SHELL env) [''-c'', c], Reader = None\<rparr>
      in case StdoutPipe env of
           Inl err \<Rightarrow> (sc, Some err)
         | Inr stdout \<Rightarrow>
             (case StderrPipe env of
                Inl err \<Rightarrow> (sc, Some err)
              | Inr stderr \<Rightarrow>
                  (let sc1 = sc\<lparr>Reader := Some (MultiReader stdout stderr)\<rparr>
                   in case Start env of
                        Inl err \<Rightarrow> (sc1, Some err)
                      | Inr pid \<Rightarrow>
                          (sc1\<lparr>exec_cmd := (exec_cmd sc1)\<lparr>Process := Some pid\<rparr>\<rparr>, None))))"

text \<open>\<open>strconv.Itoa\<close> on a process id, which is never negative.\<close>

fun strconv_Itoa :: "nat \<Rightarrow> string" where
  "strconv_Itoa n =
     (if n < 10 then [''0123456789'' ! n]
      else strconv_Itoa (n div 10) @ [''0123456789'' ! (n mod 10)])"

declare strconv_Itoa.simps [simp del]

text \<open>
  \<open>Close\<close> builds the kill command from the process id, runs it and returns \<open>nil\<close>.
  \<open>kill_Run\<close> is what \<open>kill.Run()\<close> returns; the source drops it. The result is the
  command that was run and the returned error. Reading \<open>sc.cmd.Process.Pid\<close> of a
  command that was never started dereferences \<open>nil\<close>.
\<close>

definition Close :: "error option \<Rightarrow> shellCommand \<Rightarrow> panic + (execCmd \<times> error option)" where
  "Close kill_Run sc =
     (case Process (exec_cmd sc) of
        None \<Rightarrow> Inl NilPointerDereference
      | Some pid \<Rightarrow>
          (let kill = exec_Command ''TASKKILL'' [''/T'', ''/F'', ''/PID'', strconv_Itoa pid]
           in Inr (kill, None)))"

section \<open>Stop, RunCommand, Reload\<close>

text \<open>
  \<open>InterpolateContext\<close> is not part of the sources and is taken as an argument.
\<close>

definition InterpolatedCmd ::
  "(string \<Rightarrow> Context \<Rightarrow> string) \<Rightarrow> ('k, 'f, 'g, 'a) cmdPager \<Rightarrow> string" where
  "InterpolatedCmd InterpolateContext p = InterpolateContext (cmd p) (ctx p)"

definition Stop :: "error option \<Rightarrow> ('k, 'f, 'g, 'a) cmdPager \<Rightarrow> panic + ('k, 'f, 'g, 'a) cmdPager" where
  "Stop kill_Run p =
     (case Close kill_Run (command p) of
        Inl e \<Rightarrow> Inl e
      | Inr r \<Rightarrow> Inr (p\<lparr>buffer := Buffer_Close (buffer p)\<rparr>))"

text \<open>
  The two loops of \<open>RunCommand\<close>: for every annotator of every mode, in the order of the
  loops, a goroutine running \<open>AnnotateWith\<close> is started on the buffer. The loops do not
  wait for any of them.
\<close>

definition startAnnotators :: "('k, 'f, 'g, 'a) cmdPager \<Rightarrow> ('k, 'f, 'g, 'a) cmdPager" where
  "startAnnotators p =
     foldl (\<lambda>q m. foldl (\<lambda>q a. q\<lparr>buffer := go_AnnotateWith a (buffer q)\<rparr>) q (InitAnnotators m (ctx q)))
       p (modes p)"

text \<open>
  \<open>RunCommand\<close> assigns \<open>p.command\<close> and panics when \<open>NewShellCommand\<close> gave an error.
\<close>

definition RunCommand ::
  "(string \<Rightarrow> Context \<Rightarrow> string) \<Rightarrow> spawn_env \<Rightarrow> ('k, 'f, 'g, 'a) cmdPager
     \<Rightarrow> panic + ('k, 'f, 'g, 'a) cmdPager" where
  "RunCommand InterpolateContext env p =
     (let (sc, err) = NewShellCommand env (InterpolatedCmd InterpolateContext p);
          p1 = p\<lparr>command := sc\<rparr>
      in case err of
           Some e \<Rightarrow> Inl (Panic e)
         | None \<Rightarrow>
             (let p2 = p1\<lparr>buffer := NewBuffer (command p1)\<rparr>
              in Inr (startAnnotators p2)))"

definition Reload ::
  "(string \<Rightarrow> Context \<Rightarrow> string) \<Rightarrow> error option \<Rightarrow> spawn_env \<Rightarrow> ('k, 'f, 'g, 'a) cmdPager
     \<Rightarrow> panic + ('k, 'f, 'g, 'a) cmdPager" where
  "Reload InterpolateContext kill_Run env p =
     (case Stop kill_Run p of
        Inl e \<Rightarrow> Inl e
      | Inr p1 \<Rightarrow> RunCommand InterpolateContext env p1)"

section \<open>Notions of the specification\<close>

text \<open>The specification's \<open>clamp(x, lo, hi)\<close>.\<close>

definition clamp :: "int \<Rightarrow> int \<Rightarrow> int \<Rightarrow> int" where
  "clamp x lo hi = max lo (min hi x)"

text \<open>
  The invariants of the pager state: the cursor is a line of the buffer, or 0 when the buffer
  is empty; the scroll offset lies between 0 and \<open>max(0, totalLines - contentHeight)\<close>;
  the cursor is inside the window.
\<close>

definition pagerInvariant :: "('k, 'f, 'g, 'a) cmdPager \<Rightarrow> bool" where
  "pagerInvariant p =
     ((if NumLines (buffer p) = 0 then cursorY p = 0
       else 0 \<le> cursorY p \<and> cursorY p < NumLines (buffer p))
      \<and> 0 \<le> scrollOffsetY p
      \<and> scrollOffsetY p \<le> max 0 (NumLines (buffer p) - Height (contentBox p))
      \<and> scrollOffsetY p \<le> cursorY p
      \<and> cursorY p \<le> scrollOffsetY p + Height (contentBox p) - 1)"

text \<open>
  The cursor, scroll and page operations, and a caller that performs a list of them one
  after the other, each with the same bound on the depth of the recursion.
\<close>

datatype operation =
    OpMoveCursorToY int | OpMoveCursorY int | OpScrollToY int | OpScrollY int
  | OpPageUp | OpPageDown | OpCursorFirstLine | OpCursorLastLine
  | OpCursorUp | OpCursorDown | OpScrollUp | OpScrollDown

fun perform :: "nat \<Rightarrow> operation \<Rightarrow> ('k, 'f, 'g, 'a) cmdPager \<Rightarrow> ('k, 'f, 'g, 'a) cmdPager option" where
  "perform fuel (OpMoveCursorToY y) p = MoveCursorToY fuel y p"
| "perform fuel (OpMoveCursorY d) p = MoveCursorY fuel d p"
| "perform fuel (OpScrollToY y) p = ScrollToY fuel y p"
| "perform fuel (OpScrollY d) p = ScrollY fuel d p"
| "perform fuel OpPageUp p = PageUp fuel p"
| "perform fuel OpPageDown p = PageDown fuel p"
| "perform fuel OpCursorFirstLine p = CursorFirstLine fuel p"
| "perform fuel OpCursorLastLine p = CursorLastLine fuel p"
| "perform fuel OpCursorUp p = CursorUp fuel p"
| "perform fuel OpCursorDown p = CursorDown fuel p"
| "perform fuel OpScrollUp p = ScrollUp fuel p"
| "perform fuel OpScrollDown p = ScrollDown fuel p"

fun performAll :: "nat \<Rightarrow> operation list \<Rightarrow> ('k, 'f, 'g, 'a) cmdPager \<Rightarrow> ('k, 'f, 'g, 'a) cmdPager option" where
  "performAll fuel [] p = Some p"
| "performAll fuel (x # xs) p =
     (case perform fuel x p of None \<Rightarrow> None | Some p' \<Rightarrow> performAll fuel xs p')"

text \<open>
  A caller that closes the same wrapper once for every element of a list, each element
  being what \<open>kill.Run()\<close> returns in that call, and collects the returned errors.
\<close>

fun CloseRepeatedly :: "error option list \<Rightarrow> shellCommand \<Rightarrow> panic + error option list" where
  "CloseRepeatedly [] sc = Inr []"
| "CloseRepeatedly (kill_Run # rest) sc =
     (case Close kill_Run sc of
        Inl e \<Rightarrow> Inl e
      | Inr (kill, err) \<Rightarrow>
          (case CloseRepeatedly rest sc of
             Inl e \<Rightarrow> Inl e
           | Inr errs \<Rightarrow> Inr (err # errs)))"

section \<open>Example states\<close>

text \<open>An operating system that hands out both pipes and starts the process.\<close>

definition okEnv :: spawn_env where
  "okEnv = \<lparr>SHELL = ''/bin/sh'', StdoutPipe = Inr 3, StderrPipe = Inr 4, Start = Inr 4242\<rparr>"

text \<open>
  A pager over a buffer of \<open>n\<close> lines without annotations, with a content box of height
  \<open>h\<close>, the cursor on line \<open>c\<close> and the first visible line \<open>s\<close>; no listeners.
\<close>

definition pagerWith :: "nat \<Rightarrow> int \<Rightarrow> int \<Rightarrow> int \<Rightarrow> (string, string, string, string) cmdPager" where
  "pagerWith n h c s =
     \<lparr>modes = [], cmd = ''git log'', ctx = Map.empty,
      command = fst (NewShellCommand okEnv ''git log''),
      buffer = \<lparr>source = fst (NewShellCommand okEnv ''git log''), numLines = n,
                annotationsForLine = (\<lambda>y. []), annotators = [], closed = False\<rparr>,
      scrollOffsetY = s, cursorY = c,
      eventListeners = Map.empty, annotationEventListeners = Map.empty,
      box = \<lparr>Left = 0, Top = 0, Width = 80, Height = h + 1\<rparr>,
      headerBox = \<lparr>Left = 0, Top = 0, Width = 80, Height = 1\<rparr>,
      contentBox = \<lparr>Left = 0, Top = 1, Width = 80, Height = h\<rparr>\<rparr>"

text \<open>
  The scenario of the specification: ten lines, the cursor on line 3, which carries an
  annotation of class \<open>url\<close> and one of class \<open>path\<close>; the key \<open>enter\<close> has an
  annotation handler for the class \<open>path\<close> only and no plain listener.
\<close>

definition scenarioPager :: "(string, string, string, string) cmdPager" where
  "scenarioPager =
     (pagerWith 10 5 3 0)
       \<lparr>buffer := (buffer (pagerWith 10 5 3 0))
          \<lparr>annotationsForLine :=
             (\<lambda>y. if y = 3
                  then [\<lparr>Class = ''url'', Val = ''http://example.org''\<rparr>,
                        \<lparr>Class = ''path'', Val = ''/tmp/a''\<rparr>]
                  else [])\<rparr>,
        annotationEventListeners := [''enter'' \<mapsto> [''path'' \<mapsto> ''openPath'']]\<rparr>"

section \<open>Facts about the machine integers\<close>

lemma i64_id: "is_i64 x \<Longrightarrow> i64 x = x"
  by (simp add: i64_def is_i64_def)

lemma i64_in_range: "- 9223372036854775808 \<le> x \<Longrightarrow> x < 9223372036854775808 \<Longrightarrow> i64 x = x"
  by (simp add: i64_def)

lemma itoa_4242: "strconv_Itoa 4242 = ''4242''"
  by (simp add: strconv_Itoa.simps)

section \<open>Cursor and scroll: what the two setters compute\<close>

text \<open>
  A cursor request that lands inside the window of a valid scroll offset is stored, clamped
  to the last line, and nothing else happens.
\<close>

lemma MoveCursorToY_in_view:
  fixes p :: "('k, 'f, 'g, 'a) cmdPager"
  assumes N: "1 \<le> NumLines (buffer p)" "is_i64 (NumLines (buffer p))"
    and H: "1 \<le> Height (contentBox p)" "is_i64 (Height (contentBox p))"
    and s: "0 \<le> scrollOffsetY p" "scrollOffsetY p \<le> max 0 (NumLines (buffer p) - Height (contentBox p))"
    and y: "scrollOffsetY p \<le> y" "y \<le> scrollOffsetY p + Height (contentBox p) - 1"
  shows "MoveCursorToY (Suc k) y p = Some (p\<lparr>cursorY := min y (NumLines (buffer p) - 1)\<rparr>)"
proof -
  have r1: "i64 (NumLines (buffer p) - 1) = NumLines (buffer p) - 1"
    using N by (intro i64_in_range) (simp_all add: is_i64_def)
  have r2: "i64 (scrollOffsetY p + Height (contentBox p)) = scrollOffsetY p + Height (contentBox p)"
    using N H s by (intro i64_in_range) (simp_all add: is_i64_def)
  have r3: "i64 (scrollOffsetY p + Height (contentBox p) - 1) = scrollOffsetY p + Height (contentBox p) - 1"
    using N H s by (intro i64_in_range) (simp_all add: is_i64_def)
  show ?thesis
    using N H s y by (auto simp add: Let_def r1 r2 r3 min_def)
qed

text \<open>
  On a buffer with at least one line and a content box of at least one row, two levels of
  calls are enough for \<open>ScrollToY\<close>: the offset is clamped, and the cursor is snapped
  to the nearer edge of the new window by one nested call that corrects nothing further.
\<close>

lemma ScrollToY_result:
  fixes p :: "('k, 'f, 'g, 'a) cmdPager"
  assumes N: "1 \<le> NumLines (buffer p)" "is_i64 (NumLines (buffer p))"
    and H: "1 \<le> Height (contentBox p)" "is_i64 (Height (contentBox p))"
    and s': "s' = clamp y 0 (max 0 (NumLines (buffer p) - Height (contentBox p)))"
  shows "ScrollToY (Suc (Suc k)) y p =
     Some (p\<lparr>scrollOffsetY := s',
             cursorY := (if cursorY p < s' then s'
                         else if cursorY p > s' + Height (contentBox p) - 1
                         then min (s' + Height (contentBox p) - 1) (NumLines (buffer p) - 1)
                         else cursorY p)\<rparr>)"
proof -
  define n where "n = NumLines (buffer p)"
  define h where "h = Height (contentBox p)"
  define p1 where "p1 = p\<lparr>scrollOffsetY := s'\<rparr>"
  have hb: "1 \<le> h" "1 \<le> n" "is_i64 n" "is_i64 h"
    using N H by (simp_all add: n_def h_def)
  have r0: "i64 (n - h) = n - h"
    using hb by (intro i64_in_range) (simp_all add: is_i64_def)
  have s'b: "0 \<le> s'" "s' \<le> max 0 (n - h)"
    by (simp_all add: s' clamp_def n_def h_def)
  have s'n: "s' < n"
    using s'b hb by (simp add: max_def split: if_splits)
  have r2: "i64 (s' + h) = s' + h"
    using hb s'b by (intro i64_in_range) (simp_all add: is_i64_def)
  have r3: "i64 (s' + h - 1) = s' + h - 1"
    using hb s'b by (intro i64_in_range) (simp_all add: is_i64_def)
  have first: "(if y < 0 then p\<lparr>scrollOffsetY := 0\<rparr>
                else if y \<ge> i64 (NumLines (buffer p) - Height (contentBox p))
                then (if NumLines (buffer p) > Height (contentBox p)
                      then p\<lparr>scrollOffsetY := i64 (NumLines (buffer p) - Height (contentBox p))\<rparr>
                      else p\<lparr>scrollOffsetY := 0\<rparr>)
                else p\<lparr>scrollOffsetY := y\<rparr>) = p1"
    using r0 unfolding p1_def s' clamp_def n_def h_def by (simp add: min_def max_def)
  have p1f: "NumLines (buffer p1) = n" "Height (contentBox p1) = h" "scrollOffsetY p1 = s'" "cursorY p1 = cursorY p"
    by (simp_all add: p1_def n_def h_def)
  have step: "ScrollToY (Suc (Suc k)) y p =
      (if cursorY p < s' then MoveCursorToY (Suc k) s' p1
       else if cursorY p > s' + h - 1 then MoveCursorToY (Suc k) (s' + h - 1) p1
       else Some p1)"
    unfolding ScrollToY.simps first Let_def p1f r2 r3 ..
  have m1: "MoveCursorToY (Suc k) s' p1 = Some (p1\<lparr>cursorY := min s' (n - 1)\<rparr>)"
    using MoveCursorToY_in_view[of p1 s' k] hb s'b unfolding p1f by simp
  have m2: "MoveCursorToY (Suc k) (s' + h - 1) p1 = Some (p1\<lparr>cursorY := min (s' + h - 1) (n - 1)\<rparr>)"
    using MoveCursorToY_in_view[of p1 "s' + h - 1" k] hb s'b unfolding p1f by simp
  have e1: "min s' (n - 1) = s'"
    using s'n by simp
  have e3: "p1 = p1\<lparr>cursorY := cursorY p\<rparr>"
    by (simp add: p1_def)
  show ?thesis
    unfolding step m1 m2 e1 n_def[symmetric] h_def[symmetric]
    using e3 by (simp add: p1_def)
qed

text \<open>On an empty buffer \<open>ScrollToY\<close> returns when the cursor is inside the window.\<close>

lemma ScrollToY_empty_in_view:
  fixes p :: "('k, 'f, 'g, 'a) cmdPager"
  assumes N: "NumLines (buffer p) = 0"
    and H: "1 \<le> Height (contentBox p)" "is_i64 (Height (contentBox p))"
    and c: "0 \<le> cursorY p" "cursorY p \<le> Height (contentBox p) - 1"
  shows "ScrollToY (Suc k) y p = Some (p\<lparr>scrollOffsetY := 0\<rparr>)"
proof -
  have r0: "i64 (- Height (contentBox p)) = - Height (contentBox p)"
    using H by (intro i64_in_range) (simp_all add: is_i64_def)
  have r2: "i64 (Height (contentBox p)) = Height (contentBox p)"
    using H by (simp add: i64_id)
  have r3: "i64 (Height (contentBox p) - 1) = Height (contentBox p) - 1"
    using H by (intro i64_in_range) (simp_all add: is_i64_def)
  show ?thesis
    using N H c by (simp add: Let_def r0 r2 r3)
qed

text \<open>
  When the cursor is inside the window of the clamped offset, \<open>ScrollToY\<close> stores the
  offset and nothing else happens.
\<close>

lemma ScrollToY_in_view:
  fixes p :: "('k, 'f, 'g, 'a) cmdPager"
  assumes N: "is_i64 (NumLines (buffer p))"
    and H: "1 \<le> Height (contentBox p)" "is_i64 (Height (contentBox p))"
    and s': "s' = clamp y 0 (max 0 (NumLines (buffer p) - Height (contentBox p)))"
    and c: "s' \<le> cursorY p" "cursorY p \<le> s' + Height (contentBox p) - 1"
  shows "ScrollToY (Suc k) y p = Some (p\<lparr>scrollOffsetY := s'\<rparr>)"
proof -
  define n where "n = NumLines (buffer p)"
  define h where "h = Height (contentBox p)"
  define p1 where "p1 = p\<lparr>scrollOffsetY := s'\<rparr>"
  have hb: "1 \<le> h" "0 \<le> n" "is_i64 n" "is_i64 h"
    using N H by (simp_all add: n_def h_def NumLines_def)
  have r0: "i64 (n - h) = n - h"
    using hb by (intro i64_in_range) (simp_all add: is_i64_def)
  have s'b: "0 \<le> s'" "s' \<le> max 0 (n - h)"
    by (simp_all add: s' clamp_def n_def h_def)
  have r2: "i64 (s' + h) = s' + h"
    using hb s'b by (intro i64_in_range) (simp_all add: is_i64_def)
  have r3: "i64 (s' + h - 1) = s' + h - 1"
    using hb s'b by (intro i64_in_range) (simp_all add: is_i64_def)
  have first: "(if y < 0 then p\<lparr>scrollOffsetY := 0\<rparr>
                else if y \<ge> i64 (NumLines (buffer p) - Height (contentBox p))
                then (if NumLines (buffer p) > Height (contentBox p)
                      then p\<lparr>scrollOffsetY := i64 (NumLines (buffer p) - Height (contentBox p))\<rparr>
                      else p\<lparr>scrollOffsetY := 0\<rparr>)
                else p\<lparr>scrollOffsetY := y\<rparr>) = p1"
    using r0 unfolding p1_def s' clamp_def n_def h_def by (simp add: min_def max_def)
  have p1f: "NumLines (buffer p1) = n" "Height (contentBox p1) = h" "scrollOffsetY p1 = s'" "cursorY p1 = cursorY p"
    by (simp_all add: p1_def n_def h_def)
  have step: "ScrollToY (Suc k) y p =
      (if cursorY p < s' then MoveCursorToY k s' p1
       else if cursorY p > s' + h - 1 then MoveCursorToY k (s' + h - 1) p1
       else Some p1)"
    unfolding ScrollToY.simps first Let_def p1f r2 r3 ..
  show ?thesis
    unfolding step using c by (simp add: h_def p1_def)
qed

text \<open>
  The counterpart for \<open>MoveCursorToY\<close>: the request is clamped to a line of the buffer,
  and the window is slid up or down to the cursor by one nested call.
\<close>

lemma MoveCursorToY_result:
  fixes p :: "('k, 'f, 'g, 'a) cmdPager"
  assumes N: "1 \<le> NumLines (buffer p)" "is_i64 (NumLines (buffer p))"
    and H: "1 \<le> Height (contentBox p)" "is_i64 (Height (contentBox p))"
    and S: "is_i64 (scrollOffsetY p)" "is_i64 (scrollOffsetY p + Height (contentBox p))"
    and c': "c' = clamp y 0 (NumLines (buffer p) - 1)"
  shows "MoveCursorToY (Suc (Suc k)) y p =
     Some (p\<lparr>cursorY := c',
             scrollOffsetY :=
               (if c' < scrollOffsetY p
                then clamp c' 0 (max 0 (NumLines (buffer p) - Height (contentBox p)))
                else if c' > scrollOffsetY p + Height (contentBox p) - 1
                then clamp (c' - (Height (contentBox p) - 1)) 0
                       (max 0 (NumLines (buffer p) - Height (contentBox p)))
                else scrollOffsetY p)\<rparr>)"
proof -
  define n where "n = NumLines (buffer p)"
  define h where "h = Height (contentBox p)"
  define s where "s = scrollOffsetY p"
  define p1 where "p1 = p\<lparr>cursorY := c'\<rparr>"
  have hb: "1 \<le> h" "1 \<le> n" "is_i64 n" "is_i64 h" "is_i64 s" "is_i64 (s + h)"
    using N H S by (simp_all add: n_def h_def s_def)
  have c'b: "0 \<le> c'" "c' \<le> n - 1"
    using hb by (simp_all add: c' clamp_def n_def)
  have r1: "i64 (n - 1) = n - 1"
    using hb by (intro i64_in_range) (simp_all add: is_i64_def)
  have r2: "i64 (s + h) = s + h"
    using hb by (simp add: i64_id)
  have r3: "i64 (s + h - 1) = s + h - 1"
    using hb by (intro i64_in_range) (simp_all add: is_i64_def)
  have r4: "i64 (h - 1) = h - 1"
    using hb by (intro i64_in_range) (simp_all add: is_i64_def)
  have r5: "i64 (c' - (h - 1)) = c' - (h - 1)"
    using hb c'b by (intro i64_in_range) (simp_all add: is_i64_def)
  have first: "(if y < 0 then p\<lparr>cursorY := 0\<rparr>
                else if y \<ge> NumLines (buffer p)
                then p\<lparr>cursorY := i64 (NumLines (buffer p) - 1)\<rparr>
                else p\<lparr>cursorY := y\<rparr>) = p1"
    using hb unfolding n_def[symmetric] r1 p1_def c' clamp_def by (simp add: min_def max_def)
  have p1f: "NumLines (buffer p1) = n" "Height (contentBox p1) = h" "scrollOffsetY p1 = s" "cursorY p1 = c'"
    by (simp_all add: p1_def n_def h_def s_def)
  have step: "MoveCursorToY (Suc (Suc k)) y p =
      (if c' < s then ScrollToY (Suc k) c' p1
       else if c' > s + h - 1 then ScrollToY (Suc k) (c' - (h - 1)) p1
       else Some p1)"
    unfolding MoveCursorToY.simps first Let_def p1f r2 r3 r4 r5 ..
  have m1: "ScrollToY (Suc k) c' p1 = Some (p1\<lparr>scrollOffsetY := clamp c' 0 (max 0 (n - h))\<rparr>)"
  proof (rule ScrollToY_in_view)
    show "clamp c' 0 (max 0 (n - h)) = clamp c' 0 (max 0 (NumLines (buffer p1) - Height (contentBox p1)))"
      by (simp add: p1f)
    show "clamp c' 0 (max 0 (n - h)) \<le> cursorY p1"
      using c'b by (simp add: p1f clamp_def)
    show "cursorY p1 \<le> clamp c' 0 (max 0 (n - h)) + Height (contentBox p1) - 1"
      using c'b hb by (simp add: p1f clamp_def min_def max_def)
  qed (use hb in \<open>simp_all add: p1f\<close>)
  have m2: "ScrollToY (Suc k) (c' - (h - 1)) p1 =
      Some (p1\<lparr>scrollOffsetY := clamp (c' - (h - 1)) 0 (max 0 (n - h))\<rparr>)"
  proof (rule ScrollToY_in_view)
    show "clamp (c' - (h - 1)) 0 (max 0 (n - h)) =
        clamp (c' - (h - 1)) 0 (max 0 (NumLines (buffer p1) - Height (contentBox p1)))"
      by (simp add: p1f)
    show "clamp (c' - (h - 1)) 0 (max 0 (n - h)) \<le> cursorY p1"
      using c'b hb by (simp add: p1f clamp_def min_def max_def)
    show "cursorY p1 \<le> clamp (c' - (h - 1)) 0 (max 0 (n - h)) + Height (contentBox p1) - 1"
      using c'b hb by (simp add: p1f clamp_def min_def max_def)
  qed (use hb in \<open>simp_all add: p1f\<close>)
  have e3: "p1 = p1\<lparr>scrollOffsetY := s\<rparr>"
    by (simp add: p1_def s_def)
  show ?thesis
    unfolding step m1 m2 n_def[symmetric] h_def[symmetric] s_def[symmetric]
    using e3 by (simp add: p1_def)
qed

section \<open>Cursor and scroll: the invariants on a buffer that has a line\<close>

text \<open>
  On a buffer with at least one line and a content box of at least one row, every operation
  returns after at most one nested call and keeps the invariants of the pager state.
\<close>

lemma MoveCursorToY_invariant:
  fixes p :: "('k, 'f, 'g, 'a) cmdPager"
  assumes N: "1 \<le> NumLines (buffer p)" "is_i64 (NumLines (buffer p))"
    and H: "1 \<le> Height (contentBox p)" "is_i64 (Height (contentBox p))"
    and I: "pagerInvariant p"
  shows "\<exists>p'. MoveCursorToY (Suc (Suc k)) y p = Some p' \<and> pagerInvariant p'
           \<and> buffer p' = buffer p \<and> contentBox p' = contentBox p
           \<and> cursorY p' = clamp y 0 (NumLines (buffer p) - 1)"
proof -
  define n where "n = NumLines (buffer p)"
  define h where "h = Height (contentBox p)"
  define s where "s = scrollOffsetY p"
  define c' where "c' = clamp y 0 (n - 1)"
  define s' where "s' = (if c' < s then clamp c' 0 (max 0 (n - h))
                else if c' > s + h - 1 then clamp (c' - (h - 1)) 0 (max 0 (n - h))
                else s)"
  have hb: "1 \<le> h" "1 \<le> n" "is_i64 n" "is_i64 h"
    using N H by (simp_all add: n_def h_def)
  have sb: "0 \<le> s" "s \<le> max 0 (n - h)"
    using I by (simp_all add: pagerInvariant_def s_def n_def h_def)
  have S: "is_i64 (scrollOffsetY p)" "is_i64 (scrollOffsetY p + Height (contentBox p))"
    using hb sb unfolding s_def[symmetric] h_def[symmetric] by (simp_all add: is_i64_def)
  have r: "MoveCursorToY (Suc (Suc k)) y p = Some (p\<lparr>cursorY := c', scrollOffsetY := s'\<rparr>)"
    unfolding s'_def s_def n_def h_def
    by (rule MoveCursorToY_result[OF N H S]) (simp add: c'_def n_def)
  have c'b: "0 \<le> c'" "c' < n"
    using hb by (simp_all add: c'_def clamp_def)
  have s'b: "0 \<le> s'" "s' \<le> max 0 (n - h)"
    using sb by (simp_all add: s'_def clamp_def)
  have w: "s' \<le> c'" "c' \<le> s' + h - 1"
    using c'b hb by (auto simp add: s'_def clamp_def min_def max_def)
  have "pagerInvariant (p\<lparr>cursorY := c', scrollOffsetY := s'\<rparr>)"
    using c'b s'b w hb by (simp add: pagerInvariant_def n_def[symmetric] h_def[symmetric])
  then show ?thesis
    unfolding r by (simp add: c'_def n_def)
qed

lemma ScrollToY_invariant:
  fixes p :: "('k, 'f, 'g, 'a) cmdPager"
  assumes N: "1 \<le> NumLines (buffer p)" "is_i64 (NumLines (buffer p))"
    and H: "1 \<le> Height (contentBox p)" "is_i64 (Height (contentBox p))"
    and I: "pagerInvariant p"
  shows "\<exists>p'. ScrollToY (Suc (Suc k)) y p = Some p' \<and> pagerInvariant p'
           \<and> buffer p' = buffer p \<and> contentBox p' = contentBox p
           \<and> scrollOffsetY p' = clamp y 0 (max 0 (NumLines (buffer p) - Height (contentBox p)))"
proof -
  define n where "n = NumLines (buffer p)"
  define h where "h = Height (contentBox p)"
  define c where "c = cursorY p"
  define s' where "s' = clamp y 0 (max 0 (n - h))"
  define c' where "c' = (if c < s' then s' else if c > s' + h - 1 then min (s' + h - 1) (n - 1) else c)"
  have hb: "1 \<le> h" "1 \<le> n" "is_i64 n" "is_i64 h"
    using N H by (simp_all add: n_def h_def)
  have cb: "0 \<le> c" "c < n"
    using I hb by (simp_all add: pagerInvariant_def c_def n_def split: if_splits)
  have r: "ScrollToY (Suc (Suc k)) y p = Some (p\<lparr>scrollOffsetY := s', cursorY := c'\<rparr>)"
    unfolding c'_def c_def n_def h_def
    by (rule ScrollToY_result[OF N H]) (simp add: s'_def n_def h_def)
  have s'b: "0 \<le> s'" "s' \<le> max 0 (n - h)"
    by (simp_all add: s'_def clamp_def)
  have s'n: "s' < n"
    using s'b hb by (simp add: max_def split: if_splits)
  have c'b: "0 \<le> c'" "c' < n" "s' \<le> c'" "c' \<le> s' + h - 1"
    using cb s'b s'n hb by (auto simp add: c'_def min_def)
  have "pagerInvariant (p\<lparr>scrollOffsetY := s', cursorY := c'\<rparr>)"
    using c'b s'b hb by (simp add: pagerInvariant_def n_def[symmetric] h_def[symmetric])
  then show ?thesis
    unfolding r by (simp add: s'_def n_def h_def)
qed

lemma perform_invariant:
  fixes p :: "('k, 'f, 'g, 'a) cmdPager"
  assumes N: "1 \<le> NumLines (buffer p)" "is_i64 (NumLines (buffer p))"
    and H: "1 \<le> Height (contentBox p)" "is_i64 (Height (contentBox p))"
    and I: "pagerInvariant p"
  shows "\<exists>p'. perform (Suc (Suc k)) x p = Some p' \<and> pagerInvariant p'
           \<and> buffer p' = buffer p \<and> contentBox p' = contentBox p"
proof (cases x)
  case (OpMoveCursorToY y)
  then show ?thesis using MoveCursorToY_invariant[OF N H I, of k y] by (auto simp del: MoveCursorToY.simps ScrollToY.simps)
next
  case (OpMoveCursorY d)
  then show ?thesis using MoveCursorToY_invariant[OF N H I, of k "i64 (cursorY p + d)"]
    by (auto simp del: MoveCursorToY.simps ScrollToY.simps simp add: MoveCursorY_def)
next
  case (OpScrollToY y)
  then show ?thesis using ScrollToY_invariant[OF N H I, of k y] by (auto simp del: MoveCursorToY.simps ScrollToY.simps)
next
  case (OpScrollY d)
  then show ?thesis using ScrollToY_invariant[OF N H I, of k "i64 (scrollOffsetY p + d)"]
    by (auto simp del: MoveCursorToY.simps ScrollToY.simps simp add: ScrollY_def)
next
  case OpPageUp
  then show ?thesis
    using ScrollToY_invariant[OF N H I, of k "i64 (scrollOffsetY p + i64 (- Height (contentBox p)))"]
    by (auto simp del: MoveCursorToY.simps ScrollToY.simps simp add: PageUp_def ScrollY_def)
next
  case OpPageDown
  then show ?thesis
    using ScrollToY_invariant[OF N H I, of k "i64 (scrollOffsetY p + Height (contentBox p))"]
    by (auto simp del: MoveCursorToY.simps ScrollToY.simps simp add: PageDown_def ScrollY_def)
next
  case OpCursorFirstLine
  then show ?thesis using MoveCursorToY_invariant[OF N H I, of k 0]
    by (auto simp del: MoveCursorToY.simps ScrollToY.simps simp add: CursorFirstLine_def)
next
  case OpCursorLastLine
  then show ?thesis using MoveCursorToY_invariant[OF N H I, of k "NumLines (buffer p)"]
    by (auto simp del: MoveCursorToY.simps ScrollToY.simps simp add: CursorLastLine_def)
next
  case OpCursorUp
  then show ?thesis using MoveCursorToY_invariant[OF N H I, of k "i64 (cursorY p + - 1)"]
    by (auto simp del: MoveCursorToY.simps ScrollToY.simps simp add: CursorUp_def MoveCursorY_def)
next
  case OpCursorDown
  then show ?thesis using MoveCursorToY_invariant[OF N H I, of k "i64 (cursorY p + 1)"]
    by (auto simp del: MoveCursorToY.simps ScrollToY.simps simp add: CursorDown_def MoveCursorY_def)
next
  case OpScrollUp
  then show ?thesis using ScrollToY_invariant[OF N H I, of k "i64 (scrollOffsetY p + - 1)"]
    by (auto simp del: MoveCursorToY.simps ScrollToY.simps simp add: ScrollUp_def ScrollY_def)
next
  case OpScrollDown
  then show ?thesis using ScrollToY_invariant[OF N H I, of k "i64 (scrollOffsetY p + 1)"]
    by (auto simp del: MoveCursorToY.simps ScrollToY.simps simp add: ScrollDown_def ScrollY_def)
qed

lemma performAll_invariant:
  fixes p :: "('k, 'f, 'g, 'a) cmdPager"
  assumes N: "1 \<le> NumLines (buffer p)" "is_i64 (NumLines (buffer p))"
    and H: "1 \<le> Height (contentBox p)" "is_i64 (Height (contentBox p))"
    and I: "pagerInvariant p"
  shows "\<exists>p'. performAll (Suc (Suc k)) xs p = Some p' \<and> pagerInvariant p'
           \<and> buffer p' = buffer p \<and> contentBox p' = contentBox p"
  using assms
proof (induction xs arbitrary: p)
  case Nil
  then show ?case by simp
next
  case (Cons x xs)
  obtain p1 where p1: "perform (Suc (Suc k)) x p = Some p1" "pagerInvariant p1"
    "buffer p1 = buffer p" "contentBox p1 = contentBox p"
    using perform_invariant[OF Cons.prems, of k x] by blast
  have "\<exists>p'. performAll (Suc (Suc k)) xs p1 = Some p' \<and> pagerInvariant p'
           \<and> buffer p' = buffer p1 \<and> contentBox p' = contentBox p1"
    using Cons.prems p1 by (intro Cons.IH) simp_all
  then show ?case
    using p1 by (auto simp del: perform.simps)
qed

text \<open>
  The scenario of the specification: 100 lines, 10 content rows, from cursor 0 and offset 0.
  \<open>PageDown\<close> gives offset 10 and cursor 10; five times \<open>CursorDown\<close> gives cursor 15
  with the same offset; ten times more gives cursor 25 and offset 16.
\<close>

lemma specification_scenario:
  "map_option (\<lambda>p. (scrollOffsetY p, cursorY p))
     (performAll (Suc (Suc 0)) [OpPageDown] (pagerWith 100 10 0 0)) = Some (10, 10)
   \<and> map_option (\<lambda>p. (scrollOffsetY p, cursorY p))
     (performAll (Suc (Suc 0)) (OpPageDown # replicate 5 OpCursorDown) (pagerWith 100 10 0 0)) = Some (10, 15)
   \<and> map_option (\<lambda>p. (scrollOffsetY p, cursorY p))
     (performAll (Suc (Suc 0)) (OpPageDown # replicate 15 OpCursorDown) (pagerWith 100 10 0 0)) = Some (16, 25)"
  by (simp add: PageDown_def ScrollY_def CursorDown_def MoveCursorY_def pagerWith_def NumLines_def
        i64_def Let_def numeral_eq_Suc)

section \<open>Cursor and scroll: calls that never return\<close>

text \<open>
  On an empty buffer \<open>MoveCursorToY\<close> stores \<open>NumLines() - 1 = -1\<close> for every request
  that is not negative. With a scroll offset of at least 0 the cursor is then above the
  window: \<open>ScrollToY(-1)\<close> sets the offset to 0 and finds the cursor above the window,
  \<open>MoveCursorToY(0)\<close> stores \<open>-1\<close> again, and so on. No bound on the depth is enough.
\<close>

lemma empty_buffer_diverges:
  "(\<forall>(p :: ('k, 'f, 'g, 'a) cmdPager) y.
       NumLines (buffer p) = 0 \<longrightarrow> 0 \<le> y \<longrightarrow> 0 \<le> scrollOffsetY p
       \<longrightarrow> MoveCursorToY fuel y p = None)
   \<and> (\<forall>(p :: ('k, 'f, 'g, 'a) cmdPager) y.
       NumLines (buffer p) = 0 \<longrightarrow> y < 0 \<longrightarrow> cursorY p = - 1
       \<longrightarrow> ScrollToY fuel y p = None)"
proof (induction fuel)
  case 0
  show ?case by simp
next
  case (Suc fuel)
  have i: "i64 (- 1) = - 1"
    by (simp add: i64_def)
  show ?case
  proof (intro conjI allI impI)
    fix p :: "('k, 'f, 'g, 'a) cmdPager" and y :: int
    assume a: "NumLines (buffer p) = 0" "0 \<le> y" "0 \<le> scrollOffsetY p"
    have "MoveCursorToY (Suc fuel) y p = ScrollToY fuel (- 1) (p\<lparr>cursorY := - 1\<rparr>)"
      using a by (simp add: i Let_def)
    also have "\<dots> = None"
      using Suc a by simp
    finally show "MoveCursorToY (Suc fuel) y p = None" .
  next
    fix p :: "('k, 'f, 'g, 'a) cmdPager" and y :: int
    assume a: "NumLines (buffer p) = 0" "y < 0" "cursorY p = - 1"
    have "ScrollToY (Suc fuel) y p = MoveCursorToY fuel 0 (p\<lparr>scrollOffsetY := 0\<rparr>)"
      using a by (simp add: Let_def)
    also have "\<dots> = None"
      using Suc a by simp
    finally show "ScrollToY (Suc fuel) y p = None" .
  qed
qed

text \<open>
  On an empty buffer \<open>ScrollToY\<close> sets the offset to 0; a cursor outside the window is
  then handed to \<open>MoveCursorToY\<close> with a request that is not negative.
\<close>

lemma ScrollToY_empty_buffer_diverges:
  fixes p :: "('k, 'f, 'g, 'a) cmdPager"
  assumes N: "NumLines (buffer p) = 0"
    and H: "1 \<le> Height (contentBox p)" "is_i64 (Height (contentBox p))"
    and c: "cursorY p < 0 \<or> Height (contentBox p) - 1 < cursorY p"
  shows "ScrollToY fuel s p = None"
proof (cases fuel)
  case 0
  then show ?thesis by simp
next
  case (Suc k)
  define h where "h = Height (contentBox p)"
  define p1 where "p1 = p\<lparr>scrollOffsetY := 0\<rparr>"
  have hb: "1 \<le> h" "is_i64 h"
    using H by (simp_all add: h_def)
  have r0: "i64 (0 - h) = 0 - h"
    using hb by (intro i64_in_range) (simp_all add: is_i64_def)
  have r2: "i64 (0 + h) = h"
    using hb by (simp add: i64_id)
  have r3: "i64 (h - 1) = h - 1"
    using hb by (intro i64_in_range) (simp_all add: is_i64_def)
  have first: "(if s < 0 then p\<lparr>scrollOffsetY := 0\<rparr>
                else if s \<ge> i64 (NumLines (buffer p) - Height (contentBox p))
                then (if NumLines (buffer p) > Height (contentBox p)
                      then p\<lparr>scrollOffsetY := i64 (NumLines (buffer p) - Height (contentBox p))\<rparr>
                      else p\<lparr>scrollOffsetY := 0\<rparr>)
                else p\<lparr>scrollOffsetY := s\<rparr>) = p1"
    using hb unfolding N h_def[symmetric] r0 p1_def by simp
  have p1f: "NumLines (buffer p1) = 0" "Height (contentBox p1) = h" "scrollOffsetY p1 = 0"
    "cursorY p1 = cursorY p"
    using N by (simp_all add: p1_def h_def)
  have m: "MoveCursorToY k y p1 = None" if "0 \<le> y" for y
    using that empty_buffer_diverges[of k, THEN conjunct1, rule_format, of p1 y] p1f by simp
  have "ScrollToY (Suc k) s p =
      (if cursorY p < 0 then MoveCursorToY k 0 p1
       else if cursorY p > h - 1 then MoveCursorToY k (h - 1) p1
       else Some p1)"
    unfolding ScrollToY.simps first Let_def p1f r2 r3 ..
  then show ?thesis
    using c hb m unfolding Suc h_def[symmetric] by auto
qed

text \<open>
  With a content box of height 0 the window \<open>scrollOffsetY .. scrollOffsetY - 1\<close> is
  empty: whatever the cursor is, one of the two corrections applies, in both setters.
\<close>

lemma zero_height_diverges:
  "(\<forall>(p :: ('k, 'f, 'g, 'a) cmdPager) y.
       Height (contentBox p) = 0 \<longrightarrow> is_i64 (NumLines (buffer p)) \<longrightarrow>
       0 \<le> scrollOffsetY p \<longrightarrow> scrollOffsetY p \<le> NumLines (buffer p)
       \<longrightarrow> MoveCursorToY fuel y p = None)
   \<and> (\<forall>(p :: ('k, 'f, 'g, 'a) cmdPager) y.
       Height (contentBox p) = 0 \<longrightarrow> is_i64 (NumLines (buffer p)) \<longrightarrow>
       - 1 \<le> cursorY p \<longrightarrow> cursorY p \<le> NumLines (buffer p)
       \<longrightarrow> ScrollToY fuel y p = None)"
proof (induction fuel)
  case 0
  show ?case by simp
next
  case (Suc fuel)
  have i: "i64 (- 1) = - 1" by (simp add: i64_def)
  show ?case
  proof (intro conjI allI impI)
    fix p :: "('k, 'f, 'g, 'a) cmdPager" and y :: int
    assume a: "Height (contentBox p) = 0" "is_i64 (NumLines (buffer p))"
      "0 \<le> scrollOffsetY p" "scrollOffsetY p \<le> NumLines (buffer p)"
    define n where "n = NumLines (buffer p)"
    have nb: "0 \<le> n" "is_i64 n" "0 \<le> scrollOffsetY p" "scrollOffsetY p \<le> n"
      using a by (simp_all add: n_def NumLines_def)
    define c where "c = (if y < 0 then 0 else if y \<ge> n then n - 1 else y)"
    define p1 where "p1 = p\<lparr>cursorY := c\<rparr>"
    have r1: "i64 (n - 1) = n - 1"
      using nb by (intro i64_in_range) (simp_all add: is_i64_def)
    have r2: "i64 (scrollOffsetY p + 0) = scrollOffsetY p"
      using nb by (simp add: i64_id is_i64_def)
    have r3: "i64 (scrollOffsetY p - 1) = scrollOffsetY p - 1"
      using nb by (intro i64_in_range) (simp_all add: is_i64_def)
    have first: "(if y < 0 then p\<lparr>cursorY := 0\<rparr>
                else if y \<ge> NumLines (buffer p)
                then p\<lparr>cursorY := i64 (NumLines (buffer p) - 1)\<rparr>
                else p\<lparr>cursorY := y\<rparr>) = p1"
      unfolding n_def[symmetric] r1 p1_def c_def by simp
    have p1f: "Height (contentBox p1) = 0" "NumLines (buffer p1) = n" "cursorY p1 = c"
       "scrollOffsetY p1 = scrollOffsetY p"
      using a by (simp_all add: p1_def n_def)
    have cb: "- 1 \<le> c" "c \<le> n"
      using nb by (simp_all add: c_def)
    have ih: "ScrollToY fuel z p1 = None" for z
      using Suc p1f cb nb by simp
    have "MoveCursorToY (Suc fuel) y p =
       (if c < scrollOffsetY p then ScrollToY fuel c p1
        else if c > scrollOffsetY p - 1 then ScrollToY fuel (i64 (c - i64 (0 - 1))) p1
        else Some p1)"
      unfolding MoveCursorToY.simps first Let_def p1f r2 r3 ..
    then show "MoveCursorToY (Suc fuel) y p = None"
      by (simp add: ih)
  next
    fix p :: "('k, 'f, 'g, 'a) cmdPager" and y :: int
    assume a: "Height (contentBox p) = 0" "is_i64 (NumLines (buffer p))"
      "- 1 \<le> cursorY p" "cursorY p \<le> NumLines (buffer p)"
    define n where "n = NumLines (buffer p)"
    have nb: "0 \<le> n" "is_i64 n" "- 1 \<le> cursorY p" "cursorY p \<le> n"
      using a by (simp_all add: n_def NumLines_def)
    define s where "s = (if y < 0 then 0 else if y \<ge> n then (if n > 0 then n else 0) else y)"
    define p1 where "p1 = p\<lparr>scrollOffsetY := s\<rparr>"
    have r0: "i64 (n - 0) = n"
      using nb by (simp add: i64_id)
    have sb: "0 \<le> s" "s \<le> n"
      using nb by (simp_all add: s_def)
    have r2: "i64 (s + 0) = s"
      using nb sb by (simp add: i64_id is_i64_def)
    have r3: "i64 (s - 1) = s - 1"
      using nb sb by (intro i64_in_range) (simp_all add: is_i64_def)
    have first: "(if y < 0 then p\<lparr>scrollOffsetY := 0\<rparr>
                else if y \<ge> i64 (NumLines (buffer p) - Height (contentBox p))
                then (if NumLines (buffer p) > Height (contentBox p)
                      then p\<lparr>scrollOffsetY := i64 (NumLines (buffer p) - Height (contentBox p))\<rparr>
                      else p\<lparr>scrollOffsetY := 0\<rparr>)
                else p\<lparr>scrollOffsetY := y\<rparr>) = p1"
      unfolding n_def[symmetric] a(1) r0 p1_def s_def by simp
    have p1f: "Height (contentBox p1) = 0" "NumLines (buffer p1) = n" "cursorY p1 = cursorY p"
       "scrollOffsetY p1 = s"
      using a by (simp_all add: p1_def n_def)
    have ih: "MoveCursorToY fuel z p1 = None" for z
      using Suc p1f sb nb by simp
    have "ScrollToY (Suc fuel) y p =
       (if cursorY p < s then MoveCursorToY fuel s p1
        else if cursorY p > s - 1 then MoveCursorToY fuel (s - 1) p1
        else Some p1)"
      unfolding ScrollToY.simps first Let_def p1f r2 r3 ..
    then show "ScrollToY (Suc fuel) y p = None"
      by (simp add: ih)
  qed
qed

section \<open>Cursor and scroll: the statements of the specification\<close>

text \<open>
  C1. The specification asks that after any sequence of cursor, scroll and page operations
  the cursor is a line of the buffer, or 0 when the buffer is empty, and lies inside the
  window. On the code, a pager in its first state (cursor 0, offset 0, ten content rows)
  whose buffer has no line yet satisfies the invariants and does not get through a single
  \<open>CursorDown\<close>: the call returns for no bound on the depth of the mutual recursion, so
  no sequence of operations that starts with it reaches a state in which the invariants
  could hold.
\<close>

theorem CursorDown_empty_buffer_never_returns:
  "pagerInvariant (pagerWith 0 10 0 0)
   \<and> (\<forall>fuel. CursorDown fuel (pagerWith 0 10 0 0) = None)
   \<and> (\<forall>fuel ops. performAll fuel (OpCursorDown # ops) (pagerWith 0 10 0 0) = None)"
proof -
  have i: "pagerInvariant (pagerWith 0 10 0 0)"
    by (simp add: pagerInvariant_def pagerWith_def NumLines_def)
  have "i64 (0 + 1) = 1"
    by (simp add: i64_def)
  then have d: "CursorDown fuel (pagerWith 0 10 0 0) = None" for fuel
    using empty_buffer_diverges[of fuel, THEN conjunct1, rule_format, of "pagerWith 0 10 0 0" 1]
    by (simp add: CursorDown_def MoveCursorY_def pagerWith_def NumLines_def)
  show ?thesis
    using i d by simp
qed

text \<open>
  C3. The specification asks that \<open>MoveCursorToY(i)\<close> leaves the cursor on
  \<open>clamp(i, 0, N - 1)\<close>, on 0 when the buffer is empty, and that \<open>CursorLastLine\<close>
  lands on the last line. On the code, with an empty buffer and the pager in its first
  state, neither \<open>MoveCursorToY(0)\<close> nor \<open>CursorLastLine\<close> returns: the stored cursor
  is \<open>NumLines() - 1 = -1\<close>, not 0, and the corrections that follow never end.
\<close>

theorem CursorLastLine_empty_buffer_never_returns:
  "\<forall>fuel. MoveCursorToY fuel 0 (pagerWith 0 10 0 0) = None
        \<and> CursorLastLine fuel (pagerWith 0 10 0 0) = None"
proof
  fix fuel
  have "MoveCursorToY fuel 0 (pagerWith 0 10 0 0) = None"
    by (rule empty_buffer_diverges[of fuel, THEN conjunct1, rule_format])
       (simp_all add: pagerWith_def NumLines_def)
  then show "MoveCursorToY fuel 0 (pagerWith 0 10 0 0) = None
        \<and> CursorLastLine fuel (pagerWith 0 10 0 0) = None"
    by (simp add: CursorLastLine_def pagerWith_def NumLines_def)
qed

text \<open>
  C4, as amended. For a content height of at least 1, and a buffer that has a line or a
  cursor that is inside the window \<open>0 .. H - 1\<close>, \<open>ScrollToY(s)\<close> returns after at
  most one nested call and leaves the scroll offset on \<open>clamp(s, 0, max(0, N - H))\<close>; when
  the buffer has no more lines than the content box has rows, the offset is 0. The line
  count and the height are 64-bit values.
\<close>

theorem ScrollToY_clamps:
  fixes p :: "('k, 'f, 'g, 'a) cmdPager"
  assumes H: "1 \<le> Height (contentBox p)" "is_i64 (Height (contentBox p))"
    and N: "is_i64 (NumLines (buffer p))"
    and v: "1 \<le> NumLines (buffer p) \<or> (0 \<le> cursorY p \<and> cursorY p \<le> Height (contentBox p) - 1)"
    and f: "2 \<le> fuel"
  shows "\<exists>p'. ScrollToY fuel s p = Some p'
      \<and> scrollOffsetY p' = clamp s 0 (max 0 (NumLines (buffer p) - Height (contentBox p)))
      \<and> (NumLines (buffer p) \<le> Height (contentBox p) \<longrightarrow> scrollOffsetY p' = 0)"
proof -
  obtain k where k: "fuel = Suc (Suc k)"
    using f by (metis Suc_le_D numeral_2_eq_2 Suc_le_mono)
  show ?thesis
  proof (cases "1 \<le> NumLines (buffer p)")
    case True
    have "ScrollToY (Suc (Suc k)) s p =
        Some (p\<lparr>scrollOffsetY := clamp s 0 (max 0 (NumLines (buffer p) - Height (contentBox p))),
             cursorY := (if cursorY p < clamp s 0 (max 0 (NumLines (buffer p) - Height (contentBox p)))
                         then clamp s 0 (max 0 (NumLines (buffer p) - Height (contentBox p)))
                         else if cursorY p > clamp s 0 (max 0 (NumLines (buffer p) - Height (contentBox p))) + Height (contentBox p) - 1
                         then min (clamp s 0 (max 0 (NumLines (buffer p) - Height (contentBox p))) + Height (contentBox p) - 1) (NumLines (buffer p) - 1)
                         else cursorY p)\<rparr>)"
      using True N H by (intro ScrollToY_result) simp_all
    then show ?thesis
      unfolding k by (simp add: clamp_def)
  next
    case False
    then have n0: "NumLines (buffer p) = 0"
      by (simp add: NumLines_def)
    with v have c: "0 \<le> cursorY p" "cursorY p \<le> Height (contentBox p) - 1"
      by simp_all
    have "ScrollToY (Suc (Suc k)) s p = Some (p\<lparr>scrollOffsetY := 0\<rparr>)"
      using n0 H c by (rule ScrollToY_empty_in_view)
    then show ?thesis
      unfolding k using n0 H by (simp add: clamp_def)
  qed
qed

theorem ScrollToY_clamps_witness:
  "1 \<le> Height (contentBox (pagerWith 100 10 0 0))
   \<and> is_i64 (Height (contentBox (pagerWith 100 10 0 0)))
   \<and> is_i64 (NumLines (buffer (pagerWith 100 10 0 0)))
   \<and> 1 \<le> NumLines (buffer (pagerWith 100 10 0 0))
   \<and> (\<exists>p'. ScrollToY 2 250 (pagerWith 100 10 0 0) = Some p' \<and> scrollOffsetY p' = 90)
   \<and> (\<exists>p'. ScrollToY 2 7 (pagerWith 0 10 0 0) = Some p' \<and> scrollOffsetY p' = 0)"
proof -
  have h: "1 \<le> Height (contentBox (pagerWith 100 10 0 0))"
    "is_i64 (Height (contentBox (pagerWith 100 10 0 0)))"
    "is_i64 (NumLines (buffer (pagerWith 100 10 0 0)))"
    "1 \<le> NumLines (buffer (pagerWith 100 10 0 0))"
    by (simp_all add: pagerWith_def NumLines_def is_i64_def)
  have c: "clamp 250 0 (max 0 (NumLines (buffer (pagerWith 100 10 0 0))
             - Height (contentBox (pagerWith 100 10 0 0)))) = 90"
    by (simp add: clamp_def pagerWith_def NumLines_def)
  obtain p' where "ScrollToY 2 250 (pagerWith 100 10 0 0) = Some p'"
    and "scrollOffsetY p' = clamp 250 0 (max 0 (NumLines (buffer (pagerWith 100 10 0 0))
             - Height (contentBox (pagerWith 100 10 0 0))))"
    using h ScrollToY_clamps[of "pagerWith 100 10 0 0" 2 250] by auto
  moreover obtain q' where "ScrollToY 2 7 (pagerWith 0 10 0 0) = Some q'"
    and "NumLines (buffer (pagerWith 0 10 0 0)) \<le> Height (contentBox (pagerWith 0 10 0 0))
           \<longrightarrow> scrollOffsetY q' = 0"
    using ScrollToY_clamps[of "pagerWith 0 10 0 0" 2 7]
    by (auto simp add: pagerWith_def NumLines_def is_i64_def)
  ultimately show ?thesis
    using h c by (simp add: pagerWith_def NumLines_def)
qed

text \<open>
  The statement of C4 for every content height fails at height 0: on five lines, from the
  first state, \<open>ScrollToY(0)\<close> returns for no bound on the depth.
\<close>

theorem ScrollToY_zero_height_counterexample:
  "\<not> (\<exists>fuel p'. ScrollToY fuel 0 (pagerWith 5 0 0 0) = Some p'
         \<and> scrollOffsetY p' =
             clamp 0 0 (max 0 (NumLines (buffer (pagerWith 5 0 0 0))
                               - Height (contentBox (pagerWith 5 0 0 0)))))"
proof -
  have "ScrollToY fuel 0 (pagerWith 5 0 0 0) = None" for fuel
    by (rule zero_height_diverges[of fuel, THEN conjunct2, rule_format])
       (simp_all add: pagerWith_def NumLines_def is_i64_def)
  then show ?thesis by simp
qed

text \<open>
  C5. The specification asks that every call of \<open>MoveCursorToY\<close> or \<open>ScrollToY\<close>
  terminates after one cross-correction. On the code, on an empty buffer, \<open>MoveCursorToY\<close>
  returns for no request \<open>y \<ge> 0\<close> when the scroll offset is not negative, and
  \<open>ScrollToY\<close> returns for no request when the cursor is outside the window
  \<open>0 .. H - 1\<close> (as it is after \<open>Reload\<close>, which keeps the cursor and starts with an
  empty buffer): no bound on the depth of the recursion is enough.
\<close>

theorem MoveCursorToY_empty_buffer_never_returns:
  fixes p :: "('k, 'f, 'g, 'a) cmdPager"
  assumes "NumLines (buffer p) = 0"
  shows "(0 \<le> scrollOffsetY p \<and> 0 \<le> y \<longrightarrow> MoveCursorToY fuel y p = None)
       \<and> (1 \<le> Height (contentBox p) \<and> is_i64 (Height (contentBox p))
            \<and> (cursorY p < 0 \<or> Height (contentBox p) - 1 < cursorY p)
          \<longrightarrow> ScrollToY fuel s p = None)"
  using assms empty_buffer_diverges[of fuel, THEN conjunct1, rule_format, of p y]
    ScrollToY_empty_buffer_diverges[of p fuel s]
  by simp

theorem MoveCursorToY_empty_buffer_never_returns_witness:
  "NumLines (buffer (pagerWith 0 10 0 0)) = 0
   \<and> MoveCursorToY 1000 7 (pagerWith 0 10 0 0) = None
   \<and> NumLines (buffer (pagerWith 0 10 50 45)) = 0
   \<and> ScrollToY 1000 46 (pagerWith 0 10 50 45) = None"
proof -
  have h: "NumLines (buffer (pagerWith 0 10 0 0)) = 0" "NumLines (buffer (pagerWith 0 10 50 45)) = 0"
    by (simp_all add: pagerWith_def NumLines_def)
  have "MoveCursorToY 1000 7 (pagerWith 0 10 0 0) = None"
    using MoveCursorToY_empty_buffer_never_returns[OF h(1), of 7 1000 0]
    by (simp add: pagerWith_def)
  moreover have "ScrollToY 1000 46 (pagerWith 0 10 50 45) = None"
    using MoveCursorToY_empty_buffer_never_returns[OF h(2), of 0 1000 46]
    by (simp add: pagerWith_def is_i64_def)
  ultimately show ?thesis
    using h by simp
qed

section \<open>Event dispatch and registration: auxiliary facts\<close>

lemma lineContext_snoc: "lineContext (anns @ [a]) = (lineContext anns)(Class a \<mapsto> Val a)"
  by (simp add: lineContext_def)

lemma lineContext_last:
  "lineContext anns c =
     (if filter (\<lambda>a. Class a = c) anns = [] then None
      else Some (Val (last (filter (\<lambda>a. Class a = c) anns))))"
proof (induction anns rule: rev_induct)
  case Nil
  show ?case by (simp add: lineContext_def)
next
  case (snoc a anns)
  then show ?case
    by (simp add: lineContext_snoc)
qed

lemma firstHandler_none:
  "(firstHandler handlers anns = None) = (\<forall>b\<in>set anns. handlers (Class b) = None)"
  by (induction anns) (auto split: option.splits)

lemma firstHandler_first:
  "\<forall>b\<in>set pre. handlers (Class b) = None \<Longrightarrow> handlers (Class a) = Some h
     \<Longrightarrow> firstHandler handlers (pre @ a # post) = Some h"
  by (induction pre) (auto split: option.splits)

lemma bindAnnotationTypes_foldl:
  fixes p :: "('k, 'f, 'g, 'a) cmdPager"
  shows "annotationEventListeners p ke = Some m \<Longrightarrow>
     bindAnnotationTypes ke ts h p =
       Inr (p\<lparr>annotationEventListeners :=
              (annotationEventListeners p)(ke \<mapsto> foldl (\<lambda>m t. m(t \<mapsto> h)) m ts)\<rparr>)"
proof (induction ts arbitrary: p m)
  case Nil
  then show ?case by (simp add: fun_upd_idem)
next
  case (Cons t ts)
  let ?p1 = "p\<lparr>annotationEventListeners := (annotationEventListeners p)(ke \<mapsto> m(t \<mapsto> h))\<rparr>"
  have a: "annotationEventListeners ?p1 ke = Some (m(t \<mapsto> h))"
    by simp
  have "bindAnnotationTypes ke (t # ts) h p = bindAnnotationTypes ke ts h ?p1"
    using Cons.prems by simp
  also have "\<dots> = Inr (?p1\<lparr>annotationEventListeners :=
              (annotationEventListeners ?p1)(ke \<mapsto> foldl (\<lambda>m t. m(t \<mapsto> h)) (m(t \<mapsto> h)) ts)\<rparr>)"
    by (rule Cons.IH[OF a])
  also have "?p1\<lparr>annotationEventListeners :=
              (annotationEventListeners ?p1)(ke \<mapsto> foldl (\<lambda>m t. m(t \<mapsto> h)) (m(t \<mapsto> h)) ts)\<rparr>
            = p\<lparr>annotationEventListeners :=
              (annotationEventListeners p)(ke \<mapsto> foldl (\<lambda>m t. m(t \<mapsto> h)) (m(t \<mapsto> h)) ts)\<rparr>"
    by simp
  finally show ?case by (simp only: foldl_Cons)
qed

lemma foldl_bind_apply:
  "foldl (\<lambda>m t. m(t \<mapsto> h)) m ts c = (if c \<in> set ts then Some h else m c)"
  by (induction ts arbitrary: m) auto

lemma AddAnnotationEventListener_result:
  fixes p :: "('k, 'f, 'g, 'a) cmdPager"
  shows "AddAnnotationEventListener kefs keyStr ts h p =
     Inr (p\<lparr>annotationEventListeners :=
            (annotationEventListeners p)(kefs keyStr \<mapsto>
               foldl (\<lambda>m t. m(t \<mapsto> h))
                 (case annotationEventListeners p (kefs keyStr) of
                            None \<Rightarrow> Map.empty
                          | Some m \<Rightarrow> m) ts)\<rparr>)"
proof (cases "annotationEventListeners p (kefs keyStr)")
  case None
  let ?p1 = "p\<lparr>annotationEventListeners := (annotationEventListeners p)(kefs keyStr \<mapsto> Map.empty)\<rparr>"
  have a: "annotationEventListeners ?p1 (kefs keyStr) = Some Map.empty"
    by simp
  have "AddAnnotationEventListener kefs keyStr ts h p = bindAnnotationTypes (kefs keyStr) ts h ?p1"
    using None by (simp add: AddAnnotationEventListener_def Let_def)
  also have "\<dots> = Inr (?p1\<lparr>annotationEventListeners :=
              (annotationEventListeners ?p1)(kefs keyStr \<mapsto> foldl (\<lambda>m t. m(t \<mapsto> h)) Map.empty ts)\<rparr>)"
    by (rule bindAnnotationTypes_foldl[OF a])
  finally show ?thesis using None by simp
next
  case (Some m)
  have "AddAnnotationEventListener kefs keyStr ts h p = bindAnnotationTypes (kefs keyStr) ts h p"
    using Some by (simp add: AddAnnotationEventListener_def Let_def)
  also have "\<dots> = Inr (p\<lparr>annotationEventListeners :=
              (annotationEventListeners p)(kefs keyStr \<mapsto> foldl (\<lambda>m t. m(t \<mapsto> h)) m ts)\<rparr>)"
    using Some by (rule bindAnnotationTypes_foldl)
  finally show ?thesis using Some by simp
qed

section \<open>Event dispatch and registration: the statements of the specification\<close>

text \<open>
  C2. \<open>HandleEvent\<close> looks at the annotations of the cursor's line in the order the buffer
  reports them. When the key has a table of annotation handlers, the handler of the first
  annotation whose class has one is called, with the context of the whole line, and nothing
  else is called. When the key has no such table, or no class of the line has a handler in
  it, the plain listener of the key is called if there is one. At most one call is made, and
  the result is true exactly when a call was made. The context maps a class to the value of
  the last annotation of that class on the line.
\<close>

theorem HandleEvent_dispatch:
  fixes p :: "('k, 'f, 'g, 'a) cmdPager"
  shows
  "(\<forall>handlers pre a post h.
      annotationEventListeners p ke = Some handlers \<and>
      AnnotationsForLine (buffer p) (cursorY p) = pre @ a # post \<and>
      (\<forall>b\<in>set pre. handlers (Class b) = None) \<and> handlers (Class a) = Some h
      \<longrightarrow> HandleEvent ke p =
            ([CallAnnotated h (lineContext (AnnotationsForLine (buffer p) (cursorY p)))], True))
   \<and> ((annotationEventListeners p ke = None \<or>
        (\<exists>handlers. annotationEventListeners p ke = Some handlers \<and>
           (\<forall>b\<in>set (AnnotationsForLine (buffer p) (cursorY p)). handlers (Class b) = None)))
       \<longrightarrow> HandleEvent ke p =
             (case eventListeners p ke of
                Some f \<Rightarrow> ([CallPlain f], True)
              | None \<Rightarrow> ([], False)))
   \<and> length (fst (HandleEvent ke p)) \<le> 1
   \<and> snd (HandleEvent ke p) = (fst (HandleEvent ke p) \<noteq> [])
   \<and> (\<forall>c. lineContext (AnnotationsForLine (buffer p) (cursorY p)) c =
         (if filter (\<lambda>a. Class a = c) (AnnotationsForLine (buffer p) (cursorY p)) = [] then None
          else Some (Val (last (filter (\<lambda>a. Class a = c) (AnnotationsForLine (buffer p) (cursorY p)))))))"
proof (intro conjI allI impI)
  fix handlers pre a post h
  assume a: "annotationEventListeners p ke = Some handlers \<and>
      AnnotationsForLine (buffer p) (cursorY p) = pre @ a # post \<and>
      (\<forall>b\<in>set pre. handlers (Class b) = None) \<and> handlers (Class a) = Some h"
  then have "firstHandler handlers (pre @ a # post) = Some h"
    by (simp add: firstHandler_first)
  with a show "HandleEvent ke p =
            ([CallAnnotated h (lineContext (AnnotationsForLine (buffer p) (cursorY p)))], True)"
    by (simp add: HandleEvent_def Let_def)
next
  assume "annotationEventListeners p ke = None \<or>
        (\<exists>handlers. annotationEventListeners p ke = Some handlers \<and>
           (\<forall>b\<in>set (AnnotationsForLine (buffer p) (cursorY p)). handlers (Class b) = None))"
  then show "HandleEvent ke p =
             (case eventListeners p ke of
                Some f \<Rightarrow> ([CallPlain f], True)
              | None \<Rightarrow> ([], False))"
  proof
    assume "annotationEventListeners p ke = None"
    then show ?thesis by (simp add: HandleEvent_def Let_def)
  next
    assume "\<exists>handlers. annotationEventListeners p ke = Some handlers \<and>
           (\<forall>b\<in>set (AnnotationsForLine (buffer p) (cursorY p)). handlers (Class b) = None)"
    then obtain handlers where h: "annotationEventListeners p ke = Some handlers"
      "\<forall>b\<in>set (AnnotationsForLine (buffer p) (cursorY p)). handlers (Class b) = None"
      by blast
    from h(2) have "firstHandler handlers (AnnotationsForLine (buffer p) (cursorY p)) = None"
      by (simp add: firstHandler_none)
    with h(1) show ?thesis by (simp add: HandleEvent_def Let_def)
  qed
next
  show "length (fst (HandleEvent ke p)) \<le> 1"
    by (simp add: HandleEvent_def Let_def split: option.splits)
next
  show "snd (HandleEvent ke p) = (fst (HandleEvent ke p) \<noteq> [])"
    by (simp add: HandleEvent_def Let_def split: option.splits)
next
  fix c
  show "lineContext (AnnotationsForLine (buffer p) (cursorY p)) c =
         (if filter (\<lambda>a. Class a = c) (AnnotationsForLine (buffer p) (cursorY p)) = [] then None
          else Some (Val (last (filter (\<lambda>a. Class a = c) (AnnotationsForLine (buffer p) (cursorY p))))))"
    by (rule lineContext_last)
qed

theorem HandleEvent_dispatch_witness:
  "HandleEvent ''enter'' scenarioPager =
     ([CallAnnotated ''openPath''
         [''url'' \<mapsto> ''http://example.org'', ''path'' \<mapsto> ''/tmp/a'']], True)
   \<and> HandleEvent ''enter'' (scenarioPager\<lparr>cursorY := 5\<rparr>) = ([], False)
   \<and> HandleEvent ''j'' (scenarioPager\<lparr>eventListeners := [''j'' \<mapsto> ''CursorDown'']\<rparr>) =
       ([CallPlain ''CursorDown''], True)"
proof -
  have a: "annotationEventListeners scenarioPager ''enter'' = Some [''path'' \<mapsto> ''openPath'']"
    by (simp add: scenarioPager_def)
  have l: "AnnotationsForLine (buffer scenarioPager) (cursorY scenarioPager) =
      [\<lparr>Class = ''url'', Val = ''http://example.org''\<rparr>] @ \<lparr>Class = ''path'', Val = ''/tmp/a''\<rparr> # []"
    by (simp add: scenarioPager_def pagerWith_def AnnotationsForLine_def)
  have c: "lineContext (AnnotationsForLine (buffer scenarioPager) (cursorY scenarioPager)) =
      [''url'' \<mapsto> ''http://example.org'', ''path'' \<mapsto> ''/tmp/a'']"
    unfolding l by (simp add: lineContext_def)
  have "HandleEvent ''enter'' scenarioPager =
      ([CallAnnotated ''openPath''
          (lineContext (AnnotationsForLine (buffer scenarioPager) (cursorY scenarioPager)))], True)"
    by (rule HandleEvent_dispatch[of scenarioPager "''enter''", THEN conjunct1, rule_format,
          of "[''path'' \<mapsto> ''openPath'']" "[\<lparr>Class = ''url'', Val = ''http://example.org''\<rparr>]"
             "\<lparr>Class = ''path'', Val = ''/tmp/a''\<rparr>" "[]" "''openPath''"])
       (simp add: a l)
  then have 1: "HandleEvent ''enter'' scenarioPager =
     ([CallAnnotated ''openPath''
         [''url'' \<mapsto> ''http://example.org'', ''path'' \<mapsto> ''/tmp/a'']], True)"
    by (simp only: c)
  have 2: "HandleEvent ''enter'' (scenarioPager\<lparr>cursorY := 5\<rparr>) = ([], False)"
    using HandleEvent_dispatch[of "scenarioPager\<lparr>cursorY := 5\<rparr>" "''enter''", THEN conjunct2, THEN conjunct1]
    by (simp add: scenarioPager_def pagerWith_def AnnotationsForLine_def)
  have 3: "HandleEvent ''j'' (scenarioPager\<lparr>eventListeners := [''j'' \<mapsto> ''CursorDown'']\<rparr>) =
       ([CallPlain ''CursorDown''], True)"
    using HandleEvent_dispatch[of "scenarioPager\<lparr>eventListeners := [''j'' \<mapsto> ''CursorDown'']\<rparr>" "''j''",
        THEN conjunct2, THEN conjunct1]
    by (simp add: scenarioPager_def pagerWith_def)
  show ?thesis
    using 1 2 3 by simp
qed

text \<open>
  C10. \<open>AddEventListener\<close> binds the key to the handler and replaces a handler bound
  before; other keys and the annotation table stay as they are. \<open>AddAnnotationEventListener\<close>
  returns, binds the handler to every listed class under the key, keeps what other classes
  were bound to under that key, and leaves other keys and the plain table as they are.
\<close>

theorem listener_registration:
  fixes p :: "('k, 'f, 'g, 'a) cmdPager"
  shows
  "eventListeners (AddEventListener kefs keyStr f p) (kefs keyStr) = Some f
   \<and> (\<forall>k. k \<noteq> kefs keyStr \<longrightarrow>
         eventListeners (AddEventListener kefs keyStr f p) k = eventListeners p k)
   \<and> annotationEventListeners (AddEventListener kefs keyStr f p) = annotationEventListeners p
   \<and> AddEventListener kefs keyStr f (AddEventListener kefs keyStr f0 p) = AddEventListener kefs keyStr f p
   \<and> (\<exists>p' m'. AddAnnotationEventListener kefs keyStr ts h p = Inr p'
         \<and> annotationEventListeners p' (kefs keyStr) = Some m'
         \<and> (\<forall>c. c \<in> set ts \<longrightarrow> m' c = Some h)
         \<and> (\<forall>c. c \<notin> set ts \<longrightarrow>
               m' c = (case annotationEventListeners p (kefs keyStr) of
                         None \<Rightarrow> None | Some m \<Rightarrow> m c))
         \<and> (\<forall>k. k \<noteq> kefs keyStr \<longrightarrow> annotationEventListeners p' k = annotationEventListeners p k)
         \<and> eventListeners p' = eventListeners p)"
  by (simp add: AddAnnotationEventListener_result foldl_bind_apply split: option.splits)
     (simp add: AddEventListener_def)

theorem listener_registration_witness:
  "eventListeners (AddEventListener (\<lambda>s. s) ''j'' ''CursorDown''
       (AddEventListener (\<lambda>s. s) ''j'' ''ScrollDown'' scenarioPager)) ''j'' = Some ''CursorDown''
   \<and> (\<exists>p' m'. AddAnnotationEventListener (\<lambda>s. s) ''enter'' [''url'', ''sha''] ''openUrl'' scenarioPager = Inr p'
         \<and> annotationEventListeners p' ''enter'' = Some m'
         \<and> m' ''url'' = Some ''openUrl'' \<and> m' ''sha'' = Some ''openUrl''
         \<and> m' ''path'' = Some ''openPath'')"
proof -
  have a: "annotationEventListeners scenarioPager ''enter'' = Some [''path'' \<mapsto> ''openPath'']"
    by (simp add: scenarioPager_def)
  have 1: "eventListeners (AddEventListener (\<lambda>s. s) ''j'' ''CursorDown''
       (AddEventListener (\<lambda>s. s) ''j'' ''ScrollDown'' scenarioPager)) ''j'' = Some ''CursorDown''"
    using listener_registration[of "\<lambda>s. s" "''j''" "''CursorDown''"
        "AddEventListener (\<lambda>s. s) ''j'' ''ScrollDown'' scenarioPager" "''ScrollDown''"
        "[]" "''openUrl''"]
    by simp
  have 2: "\<exists>p' m'. AddAnnotationEventListener (\<lambda>s. s) ''enter'' [''url'', ''sha''] ''openUrl'' scenarioPager = Inr p'
         \<and> annotationEventListeners p' ''enter'' = Some m'
         \<and> m' ''url'' = Some ''openUrl'' \<and> m' ''sha'' = Some ''openUrl''
         \<and> m' ''path'' = Some ''openPath''"
    using listener_registration[of "\<lambda>s. s" "''enter''" "''CursorDown''" scenarioPager "''ScrollDown''"
        "[''url'', ''sha'']" "''openUrl''", THEN conjunct2, THEN conjunct2, THEN conjunct2, THEN conjunct2]
    apply (elim exE conjE)
    apply (intro exI conjI)
        apply assumption
       apply assumption
      apply simp
     apply simp
    apply (simp add: a)
    done
  show ?thesis
    using 1 2 by (rule conjI)
qed

section \<open>The process wrapper: auxiliary facts\<close>

lemma NewShellCommand_cases:
  "NewShellCommand env c =
     (case StdoutPipe env of
        Inl e \<Rightarrow> (\<lparr>exec_cmd = \<lparr>Args = [SHELL env, ''-c'', c], Process = None\<rparr>, Reader = None\<rparr>, Some e)
      | Inr out \<Rightarrow>
          (case StderrPipe env of
             Inl e \<Rightarrow> (\<lparr>exec_cmd = \<lparr>Args = [SHELL env, ''-c'', c], Process = None\<rparr>, Reader = None\<rparr>, Some e)
           | Inr er \<Rightarrow>
               (case Start env of
                  Inl e \<Rightarrow> (\<lparr>exec_cmd = \<lparr>Args = [SHELL env, ''-c'', c], Process = None\<rparr>,
                              Reader = Some (MultiReader out er)\<rparr>, Some e)
                | Inr pid \<Rightarrow> (\<lparr>exec_cmd = \<lparr>Args = [SHELL env, ''-c'', c], Process = Some pid\<rparr>,
                              Reader = Some (MultiReader out er)\<rparr>, None))))"
  by (simp add: NewShellCommand_def exec_Command_def Let_def split: sum.splits)

lemma NewShellCommand_ok:
  "NewShellCommand env c = (sc, None) \<Longrightarrow> \<exists>pid. Process (exec_cmd sc) = Some pid"
  by (auto simp add: NewShellCommand_cases split: sum.splits)

lemma Close_started:
  "Process (exec_cmd sc) = Some pid \<Longrightarrow>
   Close kill_Run sc = Inr (exec_Command ''TASKKILL'' [''/T'', ''/F'', ''/PID'', strconv_Itoa pid], None)"
  by (simp add: Close_def)

lemma CloseRepeatedly_started:
  "Process (exec_cmd sc) = Some pid \<Longrightarrow> CloseRepeatedly rs sc = Inr (replicate (length rs) None)"
  by (induction rs) (simp_all add: Close_started)

lemma startAnnotators_inner:
  fixes q :: "('k, 'f, 'g, 'a) cmdPager"
  shows "foldl (\<lambda>q a. q\<lparr>buffer := go_AnnotateWith a (buffer q)\<rparr>) q as =
     q\<lparr>buffer := (buffer q)\<lparr>annotators := annotators (buffer q) @ as\<rparr>\<rparr>"
  by (induction as arbitrary: q) (simp_all add: go_AnnotateWith_def)

lemma startAnnotators_outer:
  fixes q :: "('k, 'f, 'g, 'a) cmdPager"
  shows "foldl (\<lambda>q m. foldl (\<lambda>q a. q\<lparr>buffer := go_AnnotateWith a (buffer q)\<rparr>) q (InitAnnotators m (ctx q))) q ms =
     q\<lparr>buffer := (buffer q)\<lparr>annotators := annotators (buffer q) @ concat (map (\<lambda>m. InitAnnotators m (ctx q)) ms)\<rparr>\<rparr>"
  by (induction ms arbitrary: q) (simp_all add: startAnnotators_inner)

lemma startAnnotators_eq:
  fixes p :: "('k, 'f, 'g, 'a) cmdPager"
  shows "startAnnotators p =
     p\<lparr>buffer := (buffer p)\<lparr>annotators :=
          annotators (buffer p) @ concat (map (\<lambda>m. InitAnnotators m (ctx p)) (modes p))\<rparr>\<rparr>"
  by (simp add: startAnnotators_def startAnnotators_outer)

lemma Stop_started:
  fixes p :: "('k, 'f, 'g, 'a) cmdPager"
  shows "Process (exec_cmd (command p)) = Some pid \<Longrightarrow>
     Stop kill_Run p = Inr (p\<lparr>buffer := Buffer_Close (buffer p)\<rparr>)"
  by (simp add: Stop_def Close_started)

lemma RunCommand_ok:
  fixes p :: "('k, 'f, 'g, 'a) cmdPager"
  shows "NewShellCommand env (InterpolatedCmd interp p) = (sc, None) \<Longrightarrow>
     RunCommand interp env p =
       Inr (p\<lparr>command := sc,
              buffer := (NewBuffer sc)\<lparr>annotators :=
                 concat (map (\<lambda>m. InitAnnotators m (ctx p)) (modes p))\<rparr>\<rparr>)"
  by (simp add: RunCommand_def Let_def startAnnotators_eq NewBuffer_def)

lemma RunCommand_failed:
  fixes p :: "('k, 'f, 'g, 'a) cmdPager"
  shows "NewShellCommand env (InterpolatedCmd interp p) = (sc, Some e) \<Longrightarrow>
     RunCommand interp env p = Inl (Panic e)"
  by (simp add: RunCommand_def Let_def)

lemma NewShellCommand_okEnv:
  "NewShellCommand okEnv c =
     (\<lparr>exec_cmd = \<lparr>Args = [''/bin/sh'', ''-c'', c], Process = Some 4242\<rparr>,
       Reader = Some (MultiReader 3 4)\<rparr>, None)"
  by (simp add: NewShellCommand_cases okEnv_def)

section \<open>The process wrapper: the statements of the specification\<close>

text \<open>
  C7, as amended. On a wrapper that holds a process handle, \<open>Close\<close> runs the kill command
  for that process and returns \<open>nil\<close>, whatever running the kill command gave, and so does
  every one of any number of calls in a row. Every wrapper that \<open>NewShellCommand\<close>
  returned without an error holds a process handle.
\<close>

theorem Close_never_errors:
  "(\<forall>pid. Process (exec_cmd sc) = Some pid \<longrightarrow>
      (\<forall>kill_Run. Close kill_Run sc =
          Inr (exec_Command ''TASKKILL'' [''/T'', ''/F'', ''/PID'', strconv_Itoa pid], None))
      \<and> (\<forall>rs. CloseRepeatedly rs sc = Inr (replicate (length rs) None)))
   \<and> (\<forall>env c. NewShellCommand env c = (sc, None) \<longrightarrow>
      (\<exists>pid. Process (exec_cmd sc) = Some pid)
      \<and> (\<forall>kill_Run. \<exists>kill. Close kill_Run sc = Inr (kill, None))
      \<and> (\<forall>rs. CloseRepeatedly rs sc = Inr (replicate (length rs) None)))"
proof (intro conjI allI impI)
  fix pid kill_Run
  assume "Process (exec_cmd sc) = Some pid"
  then show "Close kill_Run sc =
      Inr (exec_Command ''TASKKILL'' [''/T'', ''/F'', ''/PID'', strconv_Itoa pid], None)"
    by (rule Close_started)
next
  fix pid rs
  assume "Process (exec_cmd sc) = Some pid"
  then show "CloseRepeatedly rs sc = Inr (replicate (length rs) None)"
    by (rule CloseRepeatedly_started)
next
  fix env c
  assume "NewShellCommand env c = (sc, None)"
  then show "\<exists>pid. Process (exec_cmd sc) = Some pid"
    by (rule NewShellCommand_ok)
next
  fix env c kill_Run
  assume "NewShellCommand env c = (sc, None)"
  then obtain pid where "Process (exec_cmd sc) = Some pid"
    using NewShellCommand_ok by blast
  then show "\<exists>kill. Close kill_Run sc = Inr (kill, None)"
    by (simp add: Close_started)
next
  fix env c rs
  assume "NewShellCommand env c = (sc, None)"
  then obtain pid where "Process (exec_cmd sc) = Some pid"
    using NewShellCommand_ok by blast
  then show "CloseRepeatedly rs sc = Inr (replicate (length rs) None)"
    by (rule CloseRepeatedly_started)
qed

theorem Close_never_errors_witness:
  "NewShellCommand okEnv ''git log'' = (fst (NewShellCommand okEnv ''git log''), None)
   \<and> Process (exec_cmd (fst (NewShellCommand okEnv ''git log''))) = Some 4242
   \<and> Close (Some (Error ''exec: TASKKILL: executable file not found in $PATH''))
        (fst (NewShellCommand okEnv ''git log'')) =
      Inr (exec_Command ''TASKKILL'' [''/T'', ''/F'', ''/PID'', ''4242''], None)
   \<and> CloseRepeatedly [None, Some (Error ''exit status 128''), None]
        (fst (NewShellCommand okEnv ''git log'')) = Inr [None, None, None]"
proof -
  have n: "NewShellCommand okEnv ''git log'' = (fst (NewShellCommand okEnv ''git log''), None)"
    by (simp add: NewShellCommand_okEnv)
  have p: "Process (exec_cmd (fst (NewShellCommand okEnv ''git log''))) = Some 4242"
    by (simp add: NewShellCommand_okEnv)
  have 1: "Close (Some (Error ''exec: TASKKILL: executable file not found in $PATH''))
        (fst (NewShellCommand okEnv ''git log'')) =
      Inr (exec_Command ''TASKKILL'' [''/T'', ''/F'', ''/PID'', strconv_Itoa 4242], None)"
    by (rule Close_never_errors[of "fst (NewShellCommand okEnv ''git log'')",
          THEN conjunct1, rule_format, OF p, THEN conjunct1, rule_format])
  have 2: "CloseRepeatedly [None, Some (Error ''exit status 128''), None]
        (fst (NewShellCommand okEnv ''git log'')) =
      Inr (replicate (length [None, Some (Error ''exit status 128''), None]) None)"
    by (rule Close_never_errors[of "fst (NewShellCommand okEnv ''git log'')",
          THEN conjunct2, rule_format, OF n, THEN conjunct2, THEN conjunct2, rule_format])
  have 3: "replicate (length [None, Some (Error ''exit status 128''), None]) (None :: error option) =
      [None, None, None]"
    by (simp add: numeral_3_eq_3)
  show ?thesis
    using n p 1 2 unfolding 3 itoa_4242 by (intro conjI)
qed

text \<open>
  The statement of C7 for every wrapper fails on a wrapper whose process could not be
  started: \<open>NewShellCommand\<close> returns it together with the error, it holds no process
  handle, and \<open>Close\<close> on it ends in a nil pointer dereference instead of returning
  \<open>nil\<close>.
\<close>

theorem Close_unstarted_counterexample:
  "snd (NewShellCommand
          (okEnv\<lparr>Start := Inl (Error ''fork/exec /bin/sh: no such file or directory'')\<rparr>)
          ''git log'') =
     Some (Error ''fork/exec /bin/sh: no such file or directory'')
   \<and> Close None
        (fst (NewShellCommand
                (okEnv\<lparr>Start := Inl (Error ''fork/exec /bin/sh: no such file or directory'')\<rparr>)
                ''git log'')) =
      Inl NilPointerDereference
   \<and> \<not> (\<exists>kill. Close None
        (fst (NewShellCommand
                (okEnv\<lparr>Start := Inl (Error ''fork/exec /bin/sh: no such file or directory'')\<rparr>)
                ''git log'')) =
      Inr (kill, None))"
  by (simp add: NewShellCommand_cases okEnv_def Close_def)

text \<open>
  C8. When the standard output pipe, the standard error pipe or the start of the process
  fails, \<open>NewShellCommand\<close> returns that error and \<open>RunCommand\<close> panics with it.
  Whenever \<open>RunCommand\<close> returns, \<open>NewShellCommand\<close> gave no error, the pager's command
  is the wrapper it returned, with a process and a reader, and the pager's buffer is a new
  open buffer over that command.
\<close>

theorem construction_failure_fatal:
  fixes p :: "('k, 'f, 'g, 'a) cmdPager"
  shows
  "(\<forall>e. (StdoutPipe env = Inl e
          \<or> (\<exists>out. StdoutPipe env = Inr out \<and> StderrPipe env = Inl e)
          \<or> (\<exists>out er. StdoutPipe env = Inr out \<and> StderrPipe env = Inr er \<and> Start env = Inl e))
        \<longrightarrow> snd (NewShellCommand env (InterpolatedCmd InterpolateContext p)) = Some e
            \<and> RunCommand InterpolateContext env p = Inl (Panic e))
   \<and> (\<forall>p'. RunCommand InterpolateContext env p = Inr p'
        \<longrightarrow> snd (NewShellCommand env (InterpolatedCmd InterpolateContext p)) = None
            \<and> command p' = fst (NewShellCommand env (InterpolatedCmd InterpolateContext p))
            \<and> (\<exists>pid. Process (exec_cmd (command p')) = Some pid)
            \<and> (\<exists>r. Reader (command p') = Some r)
            \<and> source (buffer p') = command p'
            \<and> \<not> closed (buffer p'))"
proof (intro conjI allI impI)
  fix e
  assume a: "StdoutPipe env = Inl e
          \<or> (\<exists>out. StdoutPipe env = Inr out \<and> StderrPipe env = Inl e)
          \<or> (\<exists>out er. StdoutPipe env = Inr out \<and> StderrPipe env = Inr er \<and> Start env = Inl e)"
  then show n: "snd (NewShellCommand env (InterpolatedCmd InterpolateContext p)) = Some e"
    by (auto simp add: NewShellCommand_cases)
  then show "RunCommand InterpolateContext env p = Inl (Panic e)"
    by (cases "NewShellCommand env (InterpolatedCmd InterpolateContext p)")
       (simp add: RunCommand_failed)
next
  fix p' :: "('k, 'f, 'g, 'a) cmdPager"
  assume r: "RunCommand InterpolateContext env p = Inr p'"
  obtain sc err where n: "NewShellCommand env (InterpolatedCmd InterpolateContext p) = (sc, err)"
    by (cases "NewShellCommand env (InterpolatedCmd InterpolateContext p)")
  have err: "err = None"
    using r n by (cases err) (simp_all add: RunCommand_failed)
  have p': "p' = p\<lparr>command := sc,
              buffer := (NewBuffer sc)\<lparr>annotators :=
                 concat (map (\<lambda>m. InitAnnotators m (ctx p)) (modes p))\<rparr>\<rparr>"
    using r RunCommand_ok[of env InterpolateContext p sc] n err by simp
  show "snd (NewShellCommand env (InterpolatedCmd InterpolateContext p)) = None"
    using n err by simp
  show "command p' = fst (NewShellCommand env (InterpolatedCmd InterpolateContext p))"
    using n p' by simp
  show "\<exists>pid. Process (exec_cmd (command p')) = Some pid"
    using n err p' by (auto simp add: NewShellCommand_cases split: sum.splits)
  show "\<exists>r. Reader (command p') = Some r"
    using n err p' by (auto simp add: NewShellCommand_cases split: sum.splits)
  show "source (buffer p') = command p'"
    using p' by (simp add: NewBuffer_def)
  show "\<not> closed (buffer p')"
    using p' by (simp add: NewBuffer_def)
qed

theorem construction_failure_fatal_witness:
  "snd (NewShellCommand (okEnv\<lparr>Start := Inl (Error ''fork/exec /bin/sh: no such file or directory'')\<rparr>)
          (InterpolatedCmd (\<lambda>c x. c) (pagerWith 0 10 0 0))) =
     Some (Error ''fork/exec /bin/sh: no such file or directory'')
   \<and> RunCommand (\<lambda>c x. c)
        (okEnv\<lparr>Start := Inl (Error ''fork/exec /bin/sh: no such file or directory'')\<rparr>)
        (pagerWith 0 10 0 0) =
      Inl (Panic (Error ''fork/exec /bin/sh: no such file or directory''))
   \<and> RunCommand (\<lambda>c x. c) (okEnv\<lparr>StdoutPipe := Inl (Error ''too many open files'')\<rparr>)
        (pagerWith 0 10 0 0) =
      Inl (Panic (Error ''too many open files''))
   \<and> (\<exists>p'. RunCommand (\<lambda>c x. c) okEnv (pagerWith 0 10 0 0) = Inr p'
         \<and> Process (exec_cmd (command p')) = Some 4242
         \<and> source (buffer p') = command p' \<and> \<not> closed (buffer p'))"
proof -
  have 1: "snd (NewShellCommand (okEnv\<lparr>Start := Inl (Error ''fork/exec /bin/sh: no such file or directory'')\<rparr>)
          (InterpolatedCmd (\<lambda>c x. c) (pagerWith 0 10 0 0))) =
     Some (Error ''fork/exec /bin/sh: no such file or directory'')
   \<and> RunCommand (\<lambda>c x. c)
        (okEnv\<lparr>Start := Inl (Error ''fork/exec /bin/sh: no such file or directory'')\<rparr>)
        (pagerWith 0 10 0 0) =
      Inl (Panic (Error ''fork/exec /bin/sh: no such file or directory''))"
    by (rule construction_failure_fatal[THEN conjunct1, rule_format]) (simp add: okEnv_def)
  have 2: "snd (NewShellCommand (okEnv\<lparr>StdoutPipe := Inl (Error ''too many open files'')\<rparr>)
          (InterpolatedCmd (\<lambda>c x. c) (pagerWith 0 10 0 0))) =
     Some (Error ''too many open files'')
   \<and> RunCommand (\<lambda>c x. c) (okEnv\<lparr>StdoutPipe := Inl (Error ''too many open files'')\<rparr>)
        (pagerWith 0 10 0 0) =
      Inl (Panic (Error ''too many open files''))"
    by (rule construction_failure_fatal[THEN conjunct1, rule_format]) (simp add: okEnv_def)
  obtain p' where r: "RunCommand (\<lambda>c x. c) okEnv (pagerWith 0 10 0 0) = Inr p'"
    using RunCommand_ok[OF NewShellCommand_okEnv, of "\<lambda>c x. c" "pagerWith 0 10 0 0"] by simp
  have 3: "command p' = fst (NewShellCommand okEnv (InterpolatedCmd (\<lambda>c x. c) (pagerWith 0 10 0 0)))
      \<and> (\<exists>pid. Process (exec_cmd (command p')) = Some pid)
      \<and> (\<exists>r. Reader (command p') = Some r)
      \<and> source (buffer p') = command p'
      \<and> \<not> closed (buffer p')"
    using construction_failure_fatal[of okEnv "\<lambda>c x. c" "pagerWith 0 10 0 0", THEN conjunct2, rule_format, OF r]
    by (elim conjE) (intro conjI; assumption)
  then have "Process (exec_cmd (command p')) = Some 4242"
    by (simp add: NewShellCommand_okEnv)
  then show ?thesis
    using 1 2 3 r by simp
qed

text \<open>
  C6. On a pager whose command was started, when the new command can be started,
  \<open>Reload\<close> returns a pager that differs from the old one in its command and its buffer
  only. The command is the wrapper that this call of \<open>NewShellCommand\<close> made for the
  interpolated command line, and the buffer is a new open buffer over that wrapper on which
  an \<open>AnnotateWith\<close> goroutine was started for every annotator of the modes. Both
  listener tables, the command template, the context and the modes are the old ones.
\<close>

theorem Reload_frame:
  fixes p :: "('k, 'f, 'g, 'a) cmdPager"
  assumes started: "Process (exec_cmd (command p)) = Some pid0"
    and fresh: "NewShellCommand env (InterpolatedCmd InterpolateContext p) = (sc, None)"
  shows "\<exists>p'. Reload InterpolateContext kill_Run env p = Inr p'
      \<and> p' = p\<lparr>command := sc,
                 buffer := (NewBuffer sc)\<lparr>annotators :=
                   concat (map (\<lambda>m. InitAnnotators m (ctx p)) (modes p))\<rparr>\<rparr>
      \<and> command p' = sc \<and> source (buffer p') = sc \<and> \<not> closed (buffer p')
      \<and> Args (exec_cmd sc) = [SHELL env, ''-c'', InterpolateContext (cmd p) (ctx p)]
      \<and> (\<exists>pid. Process (exec_cmd sc) = Some pid \<and> Start env = Inr pid)
      \<and> eventListeners p' = eventListeners p
      \<and> annotationEventListeners p' = annotationEventListeners p
      \<and> cmd p' = cmd p \<and> ctx p' = ctx p \<and> modes p' = modes p"
proof -
  let ?p1 = "p\<lparr>buffer := Buffer_Close (buffer p)\<rparr>"
  have s: "Stop kill_Run p = Inr ?p1"
    using started by (rule Stop_started)
  have f: "NewShellCommand env (InterpolatedCmd InterpolateContext ?p1) = (sc, None)"
    using fresh by (simp add: InterpolatedCmd_def)
  have r: "Reload InterpolateContext kill_Run env p =
      Inr (p\<lparr>command := sc,
              buffer := (NewBuffer sc)\<lparr>annotators :=
                 concat (map (\<lambda>m. InitAnnotators m (ctx p)) (modes p))\<rparr>\<rparr>)"
    by (simp add: Reload_def s RunCommand_ok[OF f])
  have a: "Args (exec_cmd sc) = [SHELL env, ''-c'', InterpolateContext (cmd p) (ctx p)]"
    using fresh by (auto simp add: NewShellCommand_cases InterpolatedCmd_def split: sum.splits)
  have b: "\<exists>pid. Process (exec_cmd sc) = Some pid \<and> Start env = Inr pid"
    using fresh by (auto simp add: NewShellCommand_cases split: sum.splits)
  show ?thesis
    using a b by (simp add: r NewBuffer_def)
qed

theorem Reload_frame_witness:
  "\<exists>p'. Reload (\<lambda>c x. c) (Some (Error ''exit status 128'')) (okEnv\<lparr>Start := Inr 4243\<rparr>) scenarioPager = Inr p'
      \<and> Process (exec_cmd (command p')) = Some 4243
      \<and> Args (exec_cmd (command p')) = [''/bin/sh'', ''-c'', ''git log'']
      \<and> source (buffer p') = command p'
      \<and> \<not> closed (buffer p')
      \<and> annotationEventListeners p' = annotationEventListeners scenarioPager
      \<and> eventListeners p' = eventListeners scenarioPager"
proof -
  have s: "Process (exec_cmd (command scenarioPager)) = Some 4242"
    by (simp add: scenarioPager_def pagerWith_def NewShellCommand_okEnv)
  have f: "NewShellCommand (okEnv\<lparr>Start := Inr 4243\<rparr>) (InterpolatedCmd (\<lambda>c x. c) scenarioPager) =
      (\<lparr>exec_cmd = \<lparr>Args = [''/bin/sh'', ''-c'', ''git log''], Process = Some 4243\<rparr>,
        Reader = Some (MultiReader 3 4)\<rparr>, None)"
    by (simp add: NewShellCommand_cases okEnv_def InterpolatedCmd_def scenarioPager_def pagerWith_def)
  show ?thesis
    using Reload_frame[OF s f, of "Some (Error ''exit status 128'')"] by auto
qed

end
